theory Spec2Isabelle
  imports Main "HOL-Library.AList"
begin

section \<open>Strings, numbers and paths\<close>

text \<open>
  Go strings are byte strings; they are modelled as \<^typ>\<open>string\<close>. The record identifier is
  a \<open>uint64\<close> and a width is an \<open>int\<close>; no arithmetic is done on either, so they are
  \<^typ>\<open>nat\<close> and \<^typ>\<open>int\<close>.
\<close>

text \<open>\<open>fmt.Sprintf("%d", n)\<close> for an unsigned and for a signed number.\<close>

fun show_nat :: "nat \<Rightarrow> string" where
  "show_nat n =
     (if n < 10 then [''0123456789'' ! n]
      else show_nat (n div 10) @ [''0123456789'' ! (n mod 10)])"

definition show_int :: "int \<Rightarrow> string" where
  "show_int i = (if i < 0 then CHR ''-'' # show_nat (nat (- i)) else show_nat (nat i))"

text \<open>The elements of a path between its separators (empty elements included).\<close>

fun splitSlash :: "string \<Rightarrow> string list" where
  "splitSlash [] = [[]]"
| "splitSlash (c # cs) =
     (if c = CHR ''/'' then [] # splitSlash cs
      else (case splitSlash cs of [] \<Rightarrow> [[c]] | x # xs \<Rightarrow> (c # x) # xs))"

fun joinSlash :: "string list \<Rightarrow> string" where
  "joinSlash [] = []"
| "joinSlash [x] = x"
| "joinSlash (x # y # ys) = x @ CHR ''/'' # joinSlash (y # ys)"

text \<open>
  \<open>filepath.Clean\<close> (Unix), element by element. The output is kept as a stack of elements,
  last one first. Empty elements and \<open>.\<close> are dropped; \<open>..\<close> removes the element before it
  when there is one that is not itself \<open>..\<close>, is kept at the front of a relative path, and is
  dropped at the front of a rooted one. An empty result is \<open>.\<close>.
\<close>

fun cleanStep :: "bool \<Rightarrow> string list \<Rightarrow> string \<Rightarrow> string list" where
  "cleanStep rooted out c =
     (if c = [] \<or> c = ''.'' then out
      else if c = ''..'' then
        (case out of
           [] \<Rightarrow> if rooted then [] else [c]
         | e # rest \<Rightarrow> if e = ''..'' then (if rooted then out else c # out) else rest)
      else c # out)"

definition Clean :: "string \<Rightarrow> string" where
  "Clean path =
     (if path = [] then ''.''
      else
        let rooted = (hd path = CHR ''/'');
            out = foldl (cleanStep rooted) [] (splitSlash path)
        in if rooted then CHR ''/'' # joinSlash (rev out)
           else if out = [] then ''.''
           else joinSlash (rev out))"

text \<open>
  \<open>filepath.Ext\<close>: the suffix from the last dot of the last element, empty when that element
  has no dot. The scan runs from the end of the path; \<open>seen\<close> is what lies behind it.
\<close>

fun extScan :: "string \<Rightarrow> string \<Rightarrow> string" where
  "extScan [] seen = []"
| "extScan (c # cs) seen =
     (if c = CHR ''/'' then []
      else if c = CHR ''.'' then c # seen
      else extScan cs (c # seen))"

definition Ext :: "string \<Rightarrow> string" where
  "Ext path = extScan (rev path) []"

definition TrimSuffix :: "string \<Rightarrow> string \<Rightarrow> string" where
  "TrimSuffix s suffix =
     (if length suffix \<le> length s \<and> drop (length s - length suffix) s = suffix
      then take (length s - length suffix) s
      else s)"

text \<open>
  \<open>filepath.Base\<close>: the last element of the path, trailing separators removed first;
  \<open>.\<close> for the empty path and \<open>/\<close> for a path of separators only.
\<close>

definition Base :: "string \<Rightarrow> string" where
  "Base path =
     (if path = [] then ''.''
      else
        let stripped = dropWhile (\<lambda>c. c = CHR ''/'') (rev path);
            element = rev (takeWhile (\<lambda>c. c \<noteq> CHR ''/'') stripped)
        in if element = [] then ''/'' else element)"

text \<open>
  \<open>utf8.DecodeRuneInString\<close>, as far as it tells a well-formed encoding from a byte that
  begins none. \<open>leadRanges\<close> gives, for a first byte, the ranges in which the bytes after it
  must lie (none for an ASCII byte), and nothing for a byte that begins no encoding;
  \<open>runeWidth\<close> is the number of bytes of the encoding at the front of a string, and 0 when
  there is none.
\<close>

definition leadRanges :: "char \<Rightarrow> (nat \<times> nat) list option" where
  "leadRanges c =
     (let b = of_char c :: nat in
      if b < 0x80 then Some []
      else if b < 0xC2 then None
      else if b < 0xE0 then Some [(0x80, 0xBF)]
      else if b = 0xE0 then Some [(0xA0, 0xBF), (0x80, 0xBF)]
      else if b = 0xED then Some [(0x80, 0x9F), (0x80, 0xBF)]
      else if b < 0xF0 then Some [(0x80, 0xBF), (0x80, 0xBF)]
      else if b = 0xF0 then Some [(0x90, 0xBF), (0x80, 0xBF), (0x80, 0xBF)]
      else if b < 0xF4 then Some [(0x80, 0xBF), (0x80, 0xBF), (0x80, 0xBF)]
      else if b = 0xF4 then Some [(0x80, 0x8F), (0x80, 0xBF), (0x80, 0xBF)]
      else None)"

fun startsIn :: "(nat \<times> nat) list \<Rightarrow> string \<Rightarrow> bool" where
  "startsIn [] cs = True"
| "startsIn (r # rs) [] = False"
| "startsIn (r # rs) (c # cs) = (fst r \<le> of_char c \<and> of_char c \<le> snd r \<and> startsIn rs cs)"

definition runeWidth :: "string \<Rightarrow> nat" where
  "runeWidth s =
     (case s of
        [] \<Rightarrow> 0
      | c # cs \<Rightarrow>
          (case leadRanges c of
             None \<Rightarrow> 0
           | Some ranges \<Rightarrow> if startsIn ranges cs then Suc (length ranges) else 0))"

text \<open>
  What \<open>encoding/json\<close> makes of a string, when it writes one and when it reads one: a
  well-formed encoding is kept, and every other byte becomes U+FFFD (the bytes EF BF BD).
  The escapes it writes for some characters are read back as those characters.
\<close>

fun toValidUTF8 :: "string \<Rightarrow> string" where
  "toValidUTF8 [] = []"
| "toValidUTF8 (c # cs) =
     (if runeWidth (c # cs) = 0 then [CHR 0xEF, CHR 0xBF, CHR 0xBD] @ toValidUTF8 cs
      else c # take (runeWidth (c # cs) - 1) cs @ toValidUTF8 (drop (runeWidth (c # cs) - 1) cs))"

text \<open>The order of strings (\<open>strings.Compare\<close>): byte by byte, a proper prefix first.\<close>

fun bytesLess :: "string \<Rightarrow> string \<Rightarrow> bool" where
  "bytesLess [] [] = False"
| "bytesLess [] (y # ys) = True"
| "bytesLess (x # xs) [] = False"
| "bytesLess (x # xs) (y # ys) = ((of_char x :: nat) < of_char y \<or> (x = y \<and> bytesLess xs ys))"

section \<open>The media record\<close>

text \<open>
  A \<open>json.RawMessage\<close> is a byte slice. It is represented by what \<open>encoding/json\<close> reads in
  it: nothing (nil or of length zero), bytes that are not JSON, or a JSON value. A number is
  kept as an integer when its literal is one, and as \<open>JFloat\<close> otherwise. A string holds the
  bytes between its quotes, escapes resolved.
\<close>

datatype json =
    JNull
  | JBool bool
  | JInt int
  | JFloat
  | JString string
  | JArray "json list"
  | JObject "(string \<times> json) list"

datatype raw_message = RawEmpty | RawInvalid | RawJSON json

text \<open>
  \<open>models.Media\<close>. The two timestamps are left out: every operation sets them from the clock
  and none reads them.
\<close>

record media =
  ID :: nat
  ModelType :: string
  ModelID :: nat
  UUID :: "string option"
  CollectionName :: string
  Name :: string
  FileName :: string
  MimeType :: string
  Disk :: string
  ConversionsDisk :: string
  Size :: int
  Manipulations :: raw_message
  CustomProperties :: raw_message
  GeneratedConversions :: raw_message
  ResponsiveImages :: raw_message
  OrderColumn :: "int option"

section \<open>Path derivation\<close>

text \<open>\<open>DefaultPathGenerator\<close> holds the prefix only.\<close>

definition getBasePath :: "string \<Rightarrow> media \<Rightarrow> string" where
  "getBasePath prefix m = prefix @ ''/'' @ show_nat (ID m) @ ''/''"

definition cleanPath :: "string \<Rightarrow> string" where
  "cleanPath path = Clean path"

definition GetPath :: "string \<Rightarrow> media \<Rightarrow> string" where
  "GetPath prefix m = cleanPath (getBasePath prefix m @ ''/'' @ FileName m)"

definition GetPathForConversion :: "string \<Rightarrow> media \<Rightarrow> string \<Rightarrow> string" where
  "GetPathForConversion prefix m conversionName =
     (let ext = Ext (FileName m);
          basename = TrimSuffix (FileName m) ext
      in cleanPath (getBasePath prefix m @ ''/'' @ conversionName @ ''/conversions/'' @
                    (basename @ ''-'' @ conversionName @ ext)))"

definition GetPathForResponsiveImage :: "string \<Rightarrow> media \<Rightarrow> string \<Rightarrow> int \<Rightarrow> string" where
  "GetPathForResponsiveImage prefix m conversionName width =
     (let ext = Ext (FileName m);
          basename = TrimSuffix (FileName m) ext
      in cleanPath (getBasePath prefix m @ ''/'' @ conversionName @ ''/responsive-images/'' @
                    (basename @ ''-'' @ conversionName @ ''-'' @ show_int width @ ext)))"

text \<open>
  An ordinary path element: not empty, without a separator, and neither \<open>.\<close> nor \<open>..\<close>.
  \<open>filepath.Base\<close> gives the ingestion operations such a file name for every source path
  but the empty one, one of separators only, and one ending in \<open>.\<close> or \<open>..\<close>.
\<close>

definition plainElement :: "string \<Rightarrow> bool" where
  "plainElement s = (s \<noteq> [] \<and> s \<noteq> ''.'' \<and> s \<noteq> ''..'' \<and> CHR ''/'' \<notin> set s)"

section \<open>Go maps and the JSON of the derived-artifact index\<close>

text \<open>
  A Go map is an association list with distinct keys, or nil. Reading a nil map gives the
  zero value; writing to it panics.
\<close>

type_synonym 'v gomap = "(string \<times> 'v) list option"

definition mapLookup :: "'v gomap \<Rightarrow> string \<Rightarrow> 'v option" where
  "mapLookup m k = (case m of None \<Rightarrow> None | Some kvs \<Rightarrow> map_of kvs k)"

text \<open>\<open>m[k]\<close> for a map of booleans: false for a missing key.\<close>

definition mapTrue :: "bool gomap \<Rightarrow> string \<Rightarrow> bool" where
  "mapTrue m k = (mapLookup m k = Some True)"

text \<open>\<open>m[k] = v\<close>: \<open>None\<close> is the panic "assignment to entry in nil map".\<close>

definition mapAssign :: "'v gomap \<Rightarrow> string \<Rightarrow> 'v \<Rightarrow> (string \<times> 'v) list option" where
  "mapAssign m k v = (case m of None \<Rightarrow> None | Some kvs \<Rightarrow> Some (AList.update k v kvs))"

text \<open>
  \<open>json.Unmarshal\<close> into the fixed Go types the library uses. \<open>None\<close> is a returned error.
  A JSON null leaves a boolean or an integer at its zero value and sets a map or a slice to
  nil. A value of the wrong kind is an \<open>UnmarshalTypeError\<close>; the decoder then goes on with
  the rest of the input, but every caller drops the target when an error is returned, so the
  target of a failed call is not modelled.
\<close>

fun unmarshalBool :: "json \<Rightarrow> bool option" where
  "unmarshalBool (JBool b) = Some b"
| "unmarshalBool JNull = Some False"
| "unmarshalBool _ = None"

fun unmarshalInt :: "json \<Rightarrow> int option" where
  "unmarshalInt (JInt n) = (if - (2 ^ 63) \<le> n \<and> n < 2 ^ 63 then Some n else None)"
| "unmarshalInt JNull = Some 0"
| "unmarshalInt _ = None"

fun unmarshalIntSlice :: "json \<Rightarrow> int list option" where
  "unmarshalIntSlice (JArray xs) = those (map unmarshalInt xs)"
| "unmarshalIntSlice JNull = Some []"
| "unmarshalIntSlice _ = None"

text \<open>
  The members of a JSON object, stored one after the other under their keys as the decoder
  reads them: a repeated key is overwritten.
\<close>

fun unmarshalMembers ::
  "(json \<Rightarrow> 'v option) \<Rightarrow> (string \<times> json) list \<Rightarrow> (string \<times> 'v) list \<Rightarrow> (string \<times> 'v) list option" where
  "unmarshalMembers dec [] acc = Some acc"
| "unmarshalMembers dec ((k, v) # kvs) acc =
     (case dec v of
        None \<Rightarrow> None
      | Some x \<Rightarrow> unmarshalMembers dec kvs (AList.update (toValidUTF8 k) x acc))"

fun unmarshalMap :: "(json \<Rightarrow> 'v option) \<Rightarrow> json \<Rightarrow> 'v gomap option" where
  "unmarshalMap dec (JObject kvs) = map_option Some (unmarshalMembers dec kvs [])"
| "unmarshalMap dec JNull = Some None"
| "unmarshalMap dec _ = None"

definition Unmarshal :: "(json \<Rightarrow> 'a option) \<Rightarrow> raw_message \<Rightarrow> 'a option" where
  "Unmarshal dec raw = (case raw of RawJSON j \<Rightarrow> dec j | _ \<Rightarrow> None)"

text \<open>
  \<open>json.Marshal\<close> of a \<open>map[string]bool\<close> and of a \<open>map[string]map[string]bool\<close>; neither can
  fail. The entries are sorted by their keys, and each key is then written as
  \<open>encoding/json\<close> writes a string; two keys can come out as the same string.
\<close>

fun insertMember :: "string \<times> 'v \<Rightarrow> (string \<times> 'v) list \<Rightarrow> (string \<times> 'v) list" where
  "insertMember kv [] = [kv]"
| "insertMember kv (kv' # rest) =
     (if bytesLess (fst kv') (fst kv) then kv' # insertMember kv rest else kv # kv' # rest)"

definition sortMembers :: "(string \<times> 'v) list \<Rightarrow> (string \<times> 'v) list" where
  "sortMembers kvs = foldr insertMember kvs []"

definition marshalMembers :: "('v \<Rightarrow> json) \<Rightarrow> (string \<times> 'v) list \<Rightarrow> json" where
  "marshalMembers enc kvs = JObject (map (\<lambda>(k, x). (toValidUTF8 k, enc x)) (sortMembers kvs))"

definition marshalBoolMap :: "bool gomap \<Rightarrow> json" where
  "marshalBoolMap m = (case m of None \<Rightarrow> JNull | Some kvs \<Rightarrow> marshalMembers JBool kvs)"

definition marshalResponsive :: "bool gomap gomap \<Rightarrow> json" where
  "marshalResponsive m =
     (case m of None \<Rightarrow> JNull | Some kvs \<Rightarrow> marshalMembers marshalBoolMap kvs)"

section \<open>Storage, repository and transformer\<close>

text \<open>
  A disk (\<open>storage.Storage\<close>) is an object table, the URL it gives for a key, and the
  operations the backend reports as failed, by key. A failed operation leaves the table as
  it was. The options of \<open>Save\<close> (visibility, content type) do not change what is stored and
  are left out. \<open>Get\<close> gives the bytes rather than a reader: a read that fails is a \<open>Get\<close> that
  fails.
\<close>

record disk =
  objects :: "string \<rightharpoonup> string"
  urlFor :: "string \<Rightarrow> string"
  saveFails :: "string \<Rightarrow> bool"
  getFails :: "string \<Rightarrow> bool"
  existsFails :: "string \<Rightarrow> bool"
  deleteFails :: "string \<Rightarrow> bool"

text \<open>\<open>contents\<close> is what the reader delivers: \<open>None\<close> when reading it fails.\<close>

definition Storage_Save :: "disk \<Rightarrow> string \<Rightarrow> string option \<Rightarrow> disk option" where
  "Storage_Save d path contents =
     (case contents of
        None \<Rightarrow> None
      | Some bytes \<Rightarrow>
          if saveFails d path then None
          else Some (d\<lparr>objects := (objects d)(path \<mapsto> bytes)\<rparr>))"

definition Storage_Get :: "disk \<Rightarrow> string \<Rightarrow> string option" where
  "Storage_Get d path = (if getFails d path then None else objects d path)"

definition Storage_Exists :: "disk \<Rightarrow> string \<Rightarrow> bool option" where
  "Storage_Exists d path = (if existsFails d path then None else Some (objects d path \<noteq> None))"

definition Storage_Delete :: "disk \<Rightarrow> string \<Rightarrow> disk option" where
  "Storage_Delete d path =
     (if deleteFails d path then None else Some (d\<lparr>objects := (objects d)(path := None)\<rparr>))"

definition Storage_URL :: "disk \<Rightarrow> string \<Rightarrow> string" where
  "Storage_URL d path = urlFor d path"

text \<open>An operation either returns or panics.\<close>

datatype 'a outcome = Return 'a | Panic

text \<open>
  The repository is the table of media rows, by identifier, with the last value of the
  identifier sequence and the records for which the database reports an error. There are
  two implementations of \<open>MediaRepository\<close>. With both, \<open>Save\<close> of a record without identifier
  inserts a row under a new identifier and puts the identifier in the record. The new
  identifier is past the sequence and past every row, as that of an auto-increment column.
\<close>

datatype implementation = GormMediaRepository | SQLMediaRepository

record repository =
  implementation :: implementation
  rows :: "(nat \<times> media) list"
  lastID :: nat
  rejects :: "media \<Rightarrow> bool"

definition newID :: "repository \<Rightarrow> nat" where
  "newID repo = Suc (fold max (map fst (rows repo)) (lastID repo))"

definition Repository_Create :: "repository \<Rightarrow> media \<Rightarrow> media \<times> repository" where
  "Repository_Create repo m =
     (let m' = m\<lparr>ID := newID repo\<rparr>
      in (m', repo\<lparr>rows := AList.update (newID repo) m' (rows repo), lastID := newID repo\<rparr>))"

text \<open>
  \<open>Save\<close> of a record with an identifier. \<open>GormMediaRepository\<close> updates the row and inserts it
  when there is none. \<open>SQLMediaRepository\<close> updates the row with that identifier and does not
  look at the number of rows updated: without such a row nothing is written and no error is
  returned. It also reads the UUID through its pointer before anything else, which panics on
  a record without UUID.
\<close>

definition Repository_Save :: "repository \<Rightarrow> media \<Rightarrow> (media \<times> repository) option outcome" where
  "Repository_Save repo m =
     (case implementation repo of
        GormMediaRepository \<Rightarrow>
          if rejects repo m then Return None
          else if ID m = 0 then Return (Some (Repository_Create repo m))
          else Return (Some (m, repo\<lparr>rows := AList.update (ID m) m (rows repo)\<rparr>))
      | SQLMediaRepository \<Rightarrow>
          if UUID m = None then Panic
          else if rejects repo m then Return None
          else if ID m = 0 then Return (Some (Repository_Create repo m))
          else if map_of (rows repo) (ID m) = None then Return (Some (m, repo))
          else Return (Some (m, repo\<lparr>rows := AList.update (ID m) m (rows repo)\<rparr>)))"

text \<open>
  Images are opaque: the decoders, the encoders and the conversions are supplied from
  outside. An image is represented by its dimensions.
\<close>

datatype image = Image nat nat

datatype codec = PNG | GIF | JPEG nat

record conversionOptions =
  Width :: int
  Height :: int
  Quality :: int
  Format :: string
  Fit :: string
  Orientation :: string
  Background :: string
  Border :: string
  Blur :: int
  Sharpen :: int
  BrightnessQ :: int
  ContrastQ :: int
  Watermark :: string

definition WithWidth :: "int \<Rightarrow> conversionOptions \<Rightarrow> conversionOptions" where
  "WithWidth width opts = opts\<lparr>Width := width\<rparr>"

definition NewOptions :: "(conversionOptions \<Rightarrow> conversionOptions) list \<Rightarrow> conversionOptions" where
  "NewOptions opts =
     fold (\<lambda>opt options. opt options) opts
       \<lparr>Width = 0, Height = 0, Quality = 90, Format = ''jpg'', Fit = ''contain'',
        Orientation = '''', Background = '''', Border = '''', Blur = 0, Sharpen = 0,
        BrightnessQ = 0, ContrastQ = 0, Watermark = ''''\<rparr>"

record responsiveConversion =
  Widths :: "int list"
  Options :: conversionOptions

record transformer =
  conversions :: "string \<rightharpoonup> (image \<Rightarrow> conversionOptions \<Rightarrow> image option)"
  responsiveConversions :: "string \<rightharpoonup> responsiveConversion"

text \<open>\<open>ImagingTransformer.Transform\<close>: an unregistered name is an error.\<close>

definition Transform ::
  "transformer \<Rightarrow> image \<Rightarrow> string \<Rightarrow> (conversionOptions \<Rightarrow> conversionOptions) list \<Rightarrow> image option" where
  "Transform t img conversionName options =
     (case conversions t conversionName of
        None \<Rightarrow> None
      | Some conversion \<Rightarrow> conversion img (NewOptions options))"


section \<open>The media library\<close>

text \<open>
  \<open>medialibrary.Options\<close> (the log level is left out, as all logging is). A custom property
  is an \<open>interface{}\<close>: either a value \<open>json.Marshal\<close> can write, or one it rejects.
\<close>

datatype property = Encodable json | Unencodable

record options =
  optDefaultDisk :: string
  optConversionsDisk :: string
  optAutoGenerateConversions :: bool
  optPerformConversions :: "string list"
  optGenerateResponsiveImages :: "string list"
  optCustomProperties :: "(string \<times> property) list"
  optModelType :: string
  optModelID :: nat
  optPathGeneratorPrefix :: string
  optName :: string

definition WithDefaultDisk :: "string \<Rightarrow> options \<Rightarrow> options" where
  "WithDefaultDisk d opts = opts\<lparr>optDefaultDisk := d\<rparr>"

definition WithConversionsDisk :: "string \<Rightarrow> options \<Rightarrow> options" where
  "WithConversionsDisk d opts = opts\<lparr>optConversionsDisk := d\<rparr>"

definition WithDisk :: "string \<Rightarrow> options \<Rightarrow> options" where
  "WithDisk d = WithDefaultDisk d"

definition WithAutoGenerateConversions :: "bool \<Rightarrow> options \<Rightarrow> options" where
  "WithAutoGenerateConversions enable opts = opts\<lparr>optAutoGenerateConversions := enable\<rparr>"

definition WithPerformConversions :: "string list \<Rightarrow> options \<Rightarrow> options" where
  "WithPerformConversions cs opts = opts\<lparr>optPerformConversions := cs\<rparr>"

definition WithGenerateResponsiveImages :: "string list \<Rightarrow> options \<Rightarrow> options" where
  "WithGenerateResponsiveImages cs opts = opts\<lparr>optGenerateResponsiveImages := cs\<rparr>"

definition WithCustomProperties :: "(string \<times> property) list \<Rightarrow> options \<Rightarrow> options" where
  "WithCustomProperties properties opts =
     opts\<lparr>optCustomProperties := fold (\<lambda>(k, v). AList.update k v) properties (optCustomProperties opts)\<rparr>"

definition WithModel :: "string \<Rightarrow> nat \<Rightarrow> options \<Rightarrow> options" where
  "WithModel modelType modelID opts = opts\<lparr>optModelType := modelType, optModelID := modelID\<rparr>"

definition WithPathGeneratorPrefix :: "string \<Rightarrow> options \<Rightarrow> options" where
  "WithPathGeneratorPrefix prefix opts = opts\<lparr>optPathGeneratorPrefix := prefix\<rparr>"

definition WithName :: "string \<Rightarrow> options \<Rightarrow> options" where
  "WithName name opts = opts\<lparr>optName := name\<rparr>"

text \<open>
  What an operation did to its collaborators, in order: each call of the repository's
  \<open>Save\<close>, each write to a disk (\<open>Save\<close> or \<open>SaveFromURL\<close>, with disk name and key), each
  \<open>Delete\<close> and each call of the transformer (with the width option when one is passed),
  together with whether the call succeeded. The list plays the part of call-counting stubs.
\<close>

datatype event =
    RepositorySave bool
  | StorageWrite string string bool
  | StorageDelete string string bool
  | TransformCall string "int option" bool

text \<open>
  \<open>DefaultMediaLibrary\<close> with the state of its collaborators and the outside world it reads.
  The disk manager maps a name to a reference to a \<open>Storage\<close>, and \<open>storages\<close> holds the state
  of each \<open>Storage\<close>: \<open>AddDisk\<close> can register one \<open>Storage\<close> under two names, and what is written
  under one name is then read under the other. Then come the image codecs, content sniffing,
  the UUID generator (the \<open>n\<close>-th draw), URL parsing (giving the path of the URL), the local
  file system and what a download of a URL delivers.
\<close>

record library =
  diskManager :: "string \<rightharpoonup> nat"
  storages :: "nat \<Rightarrow> disk"
  transformer :: transformer
  repository :: repository
  defaultOptions :: options
  pathPrefix :: string
  decodeImage :: "string \<Rightarrow> image option"
  encodeImage :: "codec \<Rightarrow> image \<Rightarrow> string option"
  detectMime :: "string \<Rightarrow> string option"
  uuidSource :: "nat \<Rightarrow> string option"
  uuidsDrawn :: nat
  parseURL :: "string \<Rightarrow> string option"
  localFiles :: "string \<rightharpoonup> string"
  remoteFiles :: "string \<rightharpoonup> string"
  events :: "event list"

datatype error =
    SourceDiskNotFound
  | ConversionsDiskNotFound
  | TargetDiskNotFound
  | DiskNotFound
  | GetFileFailed
  | DecodeImageFailed
  | SaveMediaFailed
  | UpdateMediaFailed
  | InvalidURL
  | GenerateUUIDFailed
  | MarshalCustomPropertiesFailed
  | StoreFileFailed
  | VerifyExistenceFailed
  | OpenFileFailed
  | ExistsCheckFailed
  | FileDoesNotExist
  | DeleteFileFailed

definition logEvent :: "event \<Rightarrow> library \<Rightarrow> library" where
  "logEvent e lib = lib\<lparr>events := events lib @ [e]\<rparr>"

text \<open>
  \<open>m.repository.Save(ctx, media)\<close>: the record comes back with its identifier. \<open>Return None\<close>
  is a returned error.
\<close>

definition saveRecord :: "library \<Rightarrow> media \<Rightarrow> media option outcome \<times> library" where
  "saveRecord lib m =
     (case Repository_Save (repository lib) m of
        Panic \<Rightarrow> (Panic, logEvent (RepositorySave False) lib)
      | Return None \<Rightarrow> (Return None, logEvent (RepositorySave False) lib)
      | Return (Some (m', repo')) \<Rightarrow>
          (Return (Some m'), logEvent (RepositorySave True) (lib\<lparr>repository := repo'\<rparr>)))"

text \<open>\<open>DiskManager.GetDisk\<close>, giving the \<open>Storage\<close> as it is now.\<close>

definition GetDisk :: "library \<Rightarrow> string \<Rightarrow> disk option" where
  "GetDisk lib name = map_option (storages lib) (diskManager lib name)"

text \<open>
  \<open>disk.Save(ctx, path, contents, ...)\<close> and \<open>disk.Delete(ctx, path)\<close> on the \<open>Storage\<close> registered
  under a name. The operations hold the \<open>Storage\<close> they looked up; no name is unregistered
  meanwhile, so the branch for a missing name is not reached.
\<close>

definition writeDisk :: "library \<Rightarrow> string \<Rightarrow> string \<Rightarrow> string option \<Rightarrow> bool \<times> library" where
  "writeDisk lib diskName path contents =
     (case diskManager lib diskName of
        None \<Rightarrow> (False, lib)
      | Some storage \<Rightarrow>
          (case Storage_Save (storages lib storage) path contents of
             None \<Rightarrow> (False, logEvent (StorageWrite diskName path False) lib)
           | Some d' \<Rightarrow>
               (True, logEvent (StorageWrite diskName path True)
                        (lib\<lparr>storages := (storages lib)(storage := d')\<rparr>))))"

definition deleteFromDisk :: "library \<Rightarrow> string \<Rightarrow> string \<Rightarrow> bool \<times> library" where
  "deleteFromDisk lib diskName path =
     (case diskManager lib diskName of
        None \<Rightarrow> (False, lib)
      | Some storage \<Rightarrow>
          (case Storage_Delete (storages lib storage) path of
             None \<Rightarrow> (False, logEvent (StorageDelete diskName path False) lib)
           | Some d' \<Rightarrow>
               (True, logEvent (StorageDelete diskName path True)
                        (lib\<lparr>storages := (storages lib)(storage := d')\<rparr>))))"

text \<open>The encoder is chosen by the extension of the original's file name.\<close>

definition codecFor :: "string \<Rightarrow> codec" where
  "codecFor fileName =
     (if Ext fileName = ''.png'' then PNG
      else if Ext fileName = ''.gif'' then GIF
      else JPEG 90)"

section \<open>Derived artifacts\<close>

text \<open>
  The index a generation call starts from: the stored one when it is there and decodes, an
  empty map otherwise ("starting fresh").
\<close>

definition startingIndex :: "(json \<Rightarrow> 'v option) \<Rightarrow> raw_message \<Rightarrow> 'v gomap" where
  "startingIndex dec raw =
     (if raw \<noteq> RawEmpty then
        (case Unmarshal (unmarshalMap dec) raw of None \<Rightarrow> Some [] | Some m \<Rightarrow> m)
      else Some [])"

text \<open>One round of the loop of \<open>PerformConversions\<close>.\<close>

definition convertOne ::
  "library \<Rightarrow> media \<Rightarrow> image \<Rightarrow> string \<Rightarrow> bool gomap \<Rightarrow> bool gomap outcome \<times> library" where
  "convertOne lib m img conversionName generatedConversions =
     (if mapTrue generatedConversions conversionName then (Return generatedConversions, lib)
      else
        (case Transform (transformer lib) img conversionName [] of
           None \<Rightarrow> (Return generatedConversions, logEvent (TransformCall conversionName None False) lib)
         | Some transformed \<Rightarrow>
             (case writeDisk (logEvent (TransformCall conversionName None True) lib)
                     (ConversionsDisk m)
                     (GetPathForConversion (pathPrefix lib) m conversionName)
                     (encodeImage lib (codecFor (FileName m)) transformed) of
                (False, lib') \<Rightarrow> (Return generatedConversions, lib')
              | (True, lib') \<Rightarrow>
                  (case mapAssign generatedConversions conversionName True of
                     None \<Rightarrow> (Panic, lib')
                   | Some kvs \<Rightarrow> (Return (Some kvs), lib')))))"

fun convertEach ::
  "library \<Rightarrow> media \<Rightarrow> image \<Rightarrow> string list \<Rightarrow> bool gomap \<Rightarrow> bool gomap outcome \<times> library" where
  "convertEach lib m img [] generatedConversions = (Return generatedConversions, lib)"
| "convertEach lib m img (conversionName # rest) generatedConversions =
     (case convertOne lib m img conversionName generatedConversions of
        (Panic, lib') \<Rightarrow> (Panic, lib')
      | (Return generatedConversions', lib') \<Rightarrow> convertEach lib' m img rest generatedConversions')"

text \<open>
  \<open>PerformConversions\<close>. The result is what the call returns (\<open>None\<close> for a nil error), the
  record as the call leaves it, and the library.
\<close>

definition PerformConversions ::
  "library \<Rightarrow> media \<Rightarrow> string list \<Rightarrow> error option outcome \<times> media \<times> library" where
  "PerformConversions lib m conversionNames =
     (case GetDisk lib (Disk m) of
        None \<Rightarrow> (Return (Some SourceDiskNotFound), m, lib)
      | Some sourceDisk \<Rightarrow>
     (case GetDisk lib (ConversionsDisk m) of
        None \<Rightarrow> (Return (Some ConversionsDiskNotFound), m, lib)
      | Some conversionsDisk \<Rightarrow>
     (case Storage_Get sourceDisk (GetPath (pathPrefix lib) m) of
        None \<Rightarrow> (Return (Some GetFileFailed), m, lib)
      | Some fileBytes \<Rightarrow>
     (case decodeImage lib fileBytes of
        None \<Rightarrow> (Return (Some DecodeImageFailed), m, lib)
      | Some img \<Rightarrow>
     (case convertEach lib m img conversionNames
             (startingIndex unmarshalBool (GeneratedConversions m)) of
        (Panic, lib') \<Rightarrow> (Panic, m, lib')
      | (Return generatedConversions, lib') \<Rightarrow>
          (let m' = m\<lparr>GeneratedConversions := RawJSON (marshalBoolMap generatedConversions)\<rparr>
           in case saveRecord lib' m' of
                (Panic, lib'') \<Rightarrow> (Panic, m', lib'')
              | (Return None, lib'') \<Rightarrow> (Return (Some SaveMediaFailed), m', lib'')
              | (Return (Some saved), lib'') \<Rightarrow> (Return None, saved, lib'')))))))"

text \<open>\<open>responsiveImages[conversionName]\<close>: nil when the name has no entry.\<close>

definition innerMap :: "bool gomap gomap \<Rightarrow> string \<Rightarrow> bool gomap" where
  "innerMap responsiveImages conversionName =
     (case mapLookup responsiveImages conversionName of None \<Rightarrow> None | Some inner \<Rightarrow> inner)"

text \<open>
  One round of the loop over the widths. The inner map is a reference in Go; here the
  changed inner map is put back under its name.
\<close>

definition generateWidth ::
  "library \<Rightarrow> media \<Rightarrow> image \<Rightarrow> string \<Rightarrow> int \<Rightarrow> bool gomap gomap \<Rightarrow>
   bool gomap gomap outcome \<times> library" where
  "generateWidth lib m img conversionName width responsiveImages =
     (let widthKey = show_int width in
      if mapTrue (innerMap responsiveImages conversionName) widthKey
      then (Return responsiveImages, lib)
      else
        (case Transform (transformer lib) img conversionName [WithWidth width] of
           None \<Rightarrow>
             (Return responsiveImages, logEvent (TransformCall conversionName (Some width) False) lib)
         | Some transformed \<Rightarrow>
             (case writeDisk (logEvent (TransformCall conversionName (Some width) True) lib)
                     (ConversionsDisk m)
                     (GetPathForResponsiveImage (pathPrefix lib) m conversionName width)
                     (encodeImage lib (codecFor (FileName m)) transformed) of
                (False, lib') \<Rightarrow> (Return responsiveImages, lib')
              | (True, lib') \<Rightarrow>
                  (case mapAssign (innerMap responsiveImages conversionName) widthKey True of
                     None \<Rightarrow> (Panic, lib')
                   | Some inner \<Rightarrow>
                       (case mapAssign responsiveImages conversionName (Some inner) of
                          None \<Rightarrow> (Panic, lib')
                        | Some kvs \<Rightarrow> (Return (Some kvs), lib'))))))"

fun generateWidths ::
  "library \<Rightarrow> media \<Rightarrow> image \<Rightarrow> string \<Rightarrow> int list \<Rightarrow> bool gomap gomap \<Rightarrow>
   bool gomap gomap outcome \<times> library" where
  "generateWidths lib m img conversionName [] responsiveImages = (Return responsiveImages, lib)"
| "generateWidths lib m img conversionName (width # rest) responsiveImages =
     (case generateWidth lib m img conversionName width responsiveImages of
        (Panic, lib') \<Rightarrow> (Panic, lib')
      | (Return responsiveImages', lib') \<Rightarrow>
          generateWidths lib' m img conversionName rest responsiveImages')"

text \<open>One round of the loop over the conversion names.\<close>

definition generateOne ::
  "library \<Rightarrow> media \<Rightarrow> image \<Rightarrow> string \<Rightarrow> bool gomap gomap \<Rightarrow>
   bool gomap gomap outcome \<times> library" where
  "generateOne lib m img conversionName responsiveImages =
     (case responsiveConversions (transformer lib) conversionName of
        None \<Rightarrow> (Return responsiveImages, lib)
      | Some responsiveConversion \<Rightarrow>
          (if innerMap responsiveImages conversionName = None then
             (case mapAssign responsiveImages conversionName (Some []) of
                None \<Rightarrow> (Panic, lib)
              | Some kvs \<Rightarrow>
                  generateWidths lib m img conversionName (Widths responsiveConversion) (Some kvs))
           else generateWidths lib m img conversionName (Widths responsiveConversion)
                  responsiveImages))"

fun generateEach ::
  "library \<Rightarrow> media \<Rightarrow> image \<Rightarrow> string list \<Rightarrow> bool gomap gomap \<Rightarrow>
   bool gomap gomap outcome \<times> library" where
  "generateEach lib m img [] responsiveImages = (Return responsiveImages, lib)"
| "generateEach lib m img (conversionName # rest) responsiveImages =
     (case generateOne lib m img conversionName responsiveImages of
        (Panic, lib') \<Rightarrow> (Panic, lib')
      | (Return responsiveImages', lib') \<Rightarrow> generateEach lib' m img rest responsiveImages')"

definition GenerateResponsiveImages ::
  "library \<Rightarrow> media \<Rightarrow> string list \<Rightarrow> error option outcome \<times> media \<times> library" where
  "GenerateResponsiveImages lib m conversionNames =
     (case GetDisk lib (Disk m) of
        None \<Rightarrow> (Return (Some SourceDiskNotFound), m, lib)
      | Some sourceDisk \<Rightarrow>
     (case GetDisk lib (ConversionsDisk m) of
        None \<Rightarrow> (Return (Some ConversionsDiskNotFound), m, lib)
      | Some conversionsDisk \<Rightarrow>
     (case Storage_Get sourceDisk (GetPath (pathPrefix lib) m) of
        None \<Rightarrow> (Return (Some GetFileFailed), m, lib)
      | Some fileBytes \<Rightarrow>
     (case decodeImage lib fileBytes of
        None \<Rightarrow> (Return (Some DecodeImageFailed), m, lib)
      | Some img \<Rightarrow>
     (case generateEach lib m img conversionNames
             (startingIndex (unmarshalMap unmarshalBool) (ResponsiveImages m)) of
        (Panic, lib') \<Rightarrow> (Panic, m, lib')
      | (Return responsiveImages, lib') \<Rightarrow>
          (let m' = m\<lparr>ResponsiveImages := RawJSON (marshalResponsive responsiveImages)\<rparr>
           in case saveRecord lib' m' of
                (Panic, lib'') \<Rightarrow> (Panic, m', lib'')
              | (Return None, lib'') \<Rightarrow> (Return (Some SaveMediaFailed), m', lib'')
              | (Return (Some saved), lib'') \<Rightarrow> (Return None, saved, lib'')))))))"


section \<open>URL resolution\<close>

text \<open>The record is passed by pointer: \<open>None\<close> is the nil pointer.\<close>

definition GetURLForMedia :: "library \<Rightarrow> media option \<Rightarrow> string" where
  "GetURLForMedia lib media =
     (case media of
        None \<Rightarrow> ''''
      | Some m \<Rightarrow>
          (case GetDisk lib (Disk m) of
             None \<Rightarrow> ''''
           | Some disk \<Rightarrow> Storage_URL disk (GetPath (pathPrefix lib) m)))"

definition GetURLForMediaConversion :: "library \<Rightarrow> media option \<Rightarrow> string \<Rightarrow> string" where
  "GetURLForMediaConversion lib media conversionName =
     (case media of
        None \<Rightarrow> ''''
      | Some m \<Rightarrow>
          (case Unmarshal (unmarshalMap unmarshalBool) (GeneratedConversions m) of
             None \<Rightarrow> ''''
           | Some generatedConversions \<Rightarrow>
               if \<not> mapTrue generatedConversions conversionName then ''''
               else
                 (case GetDisk lib (ConversionsDisk m) of
                    None \<Rightarrow> ''''
                  | Some disk \<Rightarrow>
                      Storage_URL disk (GetPathForConversion (pathPrefix lib) m conversionName))))"

definition GetURLForResponsiveImage ::
  "library \<Rightarrow> media option \<Rightarrow> string \<Rightarrow> int \<Rightarrow> string" where
  "GetURLForResponsiveImage lib media conversionName width =
     (case media of
        None \<Rightarrow> ''''
      | Some m \<Rightarrow>
          (case Unmarshal (unmarshalMap (unmarshalMap unmarshalIntSlice)) (ResponsiveImages m) of
             None \<Rightarrow> ''''
           | Some responsiveImages \<Rightarrow>
               (case mapLookup responsiveImages conversionName of
                  None \<Rightarrow> ''''
                | Some inner \<Rightarrow>
                    (case mapLookup inner ''widths'' of
                       None \<Rightarrow> ''''
                     | Some widths \<Rightarrow>
                         if width \<notin> set widths then ''''
                         else
                           (case GetDisk lib (ConversionsDisk m) of
                              None \<Rightarrow> ''''
                            | Some disk \<Rightarrow>
                                Storage_URL disk
                                  (GetPathForResponsiveImage (pathPrefix lib) m conversionName
                                     width))))))"

definition GetMediaUrl :: "library \<Rightarrow> media option \<Rightarrow> string" where
  "GetMediaUrl lib media =
     (case media of
        None \<Rightarrow> ''''
      | Some m \<Rightarrow>
          (case GetDisk lib (Disk m) of
             None \<Rightarrow> ''''
           | Some disk \<Rightarrow> Storage_URL disk (GetPath (pathPrefix lib) m)))"

definition GetMediaConversionUrl :: "library \<Rightarrow> media option \<Rightarrow> string \<Rightarrow> string" where
  "GetMediaConversionUrl lib media conversionName =
     (case media of
        None \<Rightarrow> ''''
      | Some m \<Rightarrow>
          (case Unmarshal (unmarshalMap unmarshalBool) (GeneratedConversions m) of
             None \<Rightarrow> ''''
           | Some generatedConversions \<Rightarrow>
               if \<not> mapTrue generatedConversions conversionName then ''''
               else
                 (case GetDisk lib (ConversionsDisk m) of
                    None \<Rightarrow> ''''
                  | Some disk \<Rightarrow>
                      Storage_URL disk (GetPathForConversion (pathPrefix lib) m conversionName))))"

definition GetMediaResponsiveImageUrl ::
  "library \<Rightarrow> media option \<Rightarrow> string \<Rightarrow> int \<Rightarrow> string" where
  "GetMediaResponsiveImageUrl lib media conversionName width =
     (case media of
        None \<Rightarrow> ''''
      | Some m \<Rightarrow>
          (case Unmarshal (unmarshalMap (unmarshalMap unmarshalIntSlice)) (ResponsiveImages m) of
             None \<Rightarrow> ''''
           | Some responsiveImages \<Rightarrow>
               (case mapLookup responsiveImages conversionName of
                  None \<Rightarrow> ''''
                | Some inner \<Rightarrow>
                    (case mapLookup inner ''widths'' of
                       None \<Rightarrow> ''''
                     | Some widths \<Rightarrow>
                         if width \<notin> set widths then ''''
                         else
                           (case GetDisk lib (ConversionsDisk m) of
                              None \<Rightarrow> ''''
                            | Some disk \<Rightarrow>
                                Storage_URL disk
                                  (GetPathForResponsiveImage (pathPrefix lib) m conversionName
                                     width))))))"

section \<open>Ingestion, copy and move\<close>

text \<open>
  \<open>strings.ToLower\<close>, on the characters whose lower case is an ASCII letter: the ASCII capitals,
  U+0130 (the bytes C4 B0, lower case \<open>i\<close>) and U+212A (the bytes E2 84 AA, lower case \<open>k\<close>).
  The lower case of any other character is outside ASCII, where the table of extensions
  below has nothing; such characters are left as they are.
\<close>

definition lowerASCII :: "char \<Rightarrow> char" where
  "lowerASCII c =
     (case map_of (zip ''ABCDEFGHIJKLMNOPQRSTUVWXYZ'' ''abcdefghijklmnopqrstuvwxyz'') c of
        None \<Rightarrow> c
      | Some l \<Rightarrow> l)"

fun toLower :: "string \<Rightarrow> string" where
  "toLower [] = []"
| "toLower (c # cs) =
     (if c = CHR 0xC4 \<and> take 1 cs = [CHR 0xB0] then CHR ''i'' # toLower (drop 1 cs)
      else if c = CHR 0xE2 \<and> take 2 cs = [CHR 0x84, CHR 0xAA] then CHR ''k'' # toLower (drop 2 cs)
      else lowerASCII c # toLower cs)"

definition getMimeTypeFromExtension :: "string \<Rightarrow> string" where
  "getMimeTypeFromExtension ext =
     (let e = toLower ext in
      if e = ''.jpg'' \<or> e = ''.jpeg'' then ''image/jpeg''
      else if e = ''.png'' then ''image/png''
      else if e = ''.gif'' then ''image/gif''
      else if e = ''.webp'' then ''image/webp''
      else if e = ''.svg'' then ''image/svg+xml''
      else if e = ''.mp4'' then ''video/mp4''
      else if e = ''.webm'' then ''video/webm''
      else if e = ''.mp3'' then ''audio/mpeg''
      else if e = ''.pdf'' then ''application/pdf''
      else ''application/octet-stream'')"

text \<open>
  Content sniffing with its fallback: \<open>getMimeTypeFromContent\<close>, and the type of the
  extension when that returns an error.
\<close>

definition mimeOf :: "library \<Rightarrow> string \<Rightarrow> string \<Rightarrow> string" where
  "mimeOf lib fileContent fileName =
     (case detectMime lib fileContent of
        None \<Rightarrow> getMimeTypeFromExtension (Ext fileName)
      | Some mimeType \<Rightarrow> mimeType)"

definition drawUUID :: "library \<Rightarrow> string option \<times> library" where
  "drawUUID lib = (uuidSource lib (uuidsDrawn lib), lib\<lparr>uuidsDrawn := Suc (uuidsDrawn lib)\<rparr>)"

text \<open>
  The options of a call: the library's defaults (with the given default disk), its default
  custom properties copied into a new map, then each option applied in turn.
\<close>

definition callOptions :: "library \<Rightarrow> string \<Rightarrow> (options \<Rightarrow> options) list \<Rightarrow> options" where
  "callOptions lib defaultDisk opts =
     fold (\<lambda>opt options. opt options) opts
       \<lparr>optDefaultDisk = defaultDisk,
        optConversionsDisk = optConversionsDisk (defaultOptions lib),
        optAutoGenerateConversions = optAutoGenerateConversions (defaultOptions lib),
        optPerformConversions = optPerformConversions (defaultOptions lib),
        optGenerateResponsiveImages = optGenerateResponsiveImages (defaultOptions lib),
        optCustomProperties =
          fold (\<lambda>(k, v). AList.update k v) (optCustomProperties (defaultOptions lib)) [],
        optModelType = '''', optModelID = 0, optPathGeneratorPrefix = '''', optName = ''''\<rparr>"

definition displayName :: "options \<Rightarrow> string \<Rightarrow> string" where
  "displayName opts baseName =
     (if optName opts = '''' then TrimSuffix baseName (Ext baseName) else optName opts)"

text \<open>The record an ingestion operation builds, before its identifier is known.\<close>

definition newMedia ::
  "options \<Rightarrow> string \<Rightarrow> string \<Rightarrow> string \<Rightarrow> string \<Rightarrow> int \<Rightarrow> string \<Rightarrow> media" where
  "newMedia opts uuid collection baseName diskName fileSize mimeType =
     \<lparr>ID = 0, ModelType = optModelType opts, ModelID = optModelID opts, UUID = Some uuid,
      CollectionName = collection, Name = displayName opts baseName, FileName = baseName,
      MimeType = mimeType, Disk = diskName, ConversionsDisk = optConversionsDisk opts,
      Size = fileSize, Manipulations = RawJSON (JObject []),
      CustomProperties = RawJSON (JObject []),
      GeneratedConversions = RawJSON (JObject []), ResponsiveImages = RawJSON (JObject []),
      OrderColumn = None\<rparr>"

text \<open>The custom properties are written into the record when there are any.\<close>

definition setCustomProperties :: "options \<Rightarrow> media \<Rightarrow> media option" where
  "setCustomProperties opts m =
     (if optCustomProperties opts = [] then Some m
      else
        (case those (map (\<lambda>(k, p). case p of Encodable j \<Rightarrow> Some (k, j) | Unencodable \<Rightarrow> None)
                       (optCustomProperties opts)) of
           None \<Rightarrow> None
         | Some members \<Rightarrow> Some (m\<lparr>CustomProperties := RawJSON (JObject members)\<rparr>)))"

text \<open>
  The end of every ingestion operation: the conversions and the responsive images that were
  asked for. An error of either call is logged only; the record is the one they changed.
  \<open>AddMediaFromURL\<close> generates responsive images without looking at the auto-generation flag.
\<close>

definition generateDerived ::
  "library \<Rightarrow> media \<Rightarrow> options \<Rightarrow> bool \<Rightarrow> (error + media) outcome \<times> library" where
  "generateDerived lib m opts responsiveNeedsAuto =
     (case (if optAutoGenerateConversions opts \<and> optPerformConversions opts \<noteq> []
            then PerformConversions lib m (optPerformConversions opts)
            else (Return None, m, lib)) of
        (Panic, m1, lib1) \<Rightarrow> (Panic, lib1)
      | (Return err1, m1, lib1) \<Rightarrow>
          (case (if (optAutoGenerateConversions opts \<or> \<not> responsiveNeedsAuto) \<and>
                    optGenerateResponsiveImages opts \<noteq> []
                 then GenerateResponsiveImages lib1 m1 (optGenerateResponsiveImages opts)
                 else (Return None, m1, lib1)) of
             (Panic, m2, lib2) \<Rightarrow> (Panic, lib2)
           | (Return err2, m2, lib2) \<Rightarrow> (Return (Inr m2), lib2)))"


definition AddMediaFromURL ::
  "library \<Rightarrow> string \<Rightarrow> string \<Rightarrow> (options \<Rightarrow> options) list \<Rightarrow>
   (error + media) outcome \<times> library" where
  "AddMediaFromURL lib urlStr collection opts =
     (case parseURL lib urlStr of
        None \<Rightarrow> (Return (Inl InvalidURL), lib)
      | Some urlPath \<Rightarrow>
     (case drawUUID lib of
        (None, lib0) \<Rightarrow> (Return (Inl GenerateUUIDFailed), lib0)
      | (Some uuid, lib0) \<Rightarrow>
     (let options = callOptions lib0 (optDefaultDisk (defaultOptions lib0)) opts;
          baseName = Base urlPath;
          diskName = optDefaultDisk options
      in
     (case GetDisk lib0 diskName of
        None \<Rightarrow> (Return (Inl DiskNotFound), lib0)
      | Some disk \<Rightarrow>
     (case setCustomProperties options
             (newMedia options uuid collection baseName diskName 0
                (getMimeTypeFromExtension (Ext baseName))) of
        None \<Rightarrow> (Return (Inl MarshalCustomPropertiesFailed), lib0)
      | Some media0 \<Rightarrow>
     (case saveRecord lib0 media0 of
        (Panic, lib1) \<Rightarrow> (Panic, lib1)
      | (Return None, lib1) \<Rightarrow> (Return (Inl SaveMediaFailed), lib1)
      | (Return (Some media1), lib1) \<Rightarrow>
     (let path = GetPath (pathPrefix lib1) media1 in
     (case writeDisk lib1 diskName path (remoteFiles lib1 urlStr) of
        (False, lib2) \<Rightarrow> (Return (Inl StoreFileFailed), lib2)
      | (True, lib2) \<Rightarrow>
     (case GetDisk lib2 diskName of
        None \<Rightarrow> (Return (Inl DiskNotFound), lib2)
      | Some stored \<Rightarrow>
     (if Storage_Exists stored path \<noteq> Some True
      then (Return (Inl VerifyExistenceFailed), lib2)
      else
     (case Storage_Get stored path of
        None \<Rightarrow> (Return (Inl GetFileFailed), lib2)
      | Some fileBytes \<Rightarrow>
     (case saveRecord lib2
             (media1\<lparr>Size := int (length fileBytes),
                     MimeType := mimeOf lib2 fileBytes (FileName media1)\<rparr>) of
        (Panic, lib3) \<Rightarrow> (Panic, lib3)
      | (Return None, lib3) \<Rightarrow> (Return (Inl UpdateMediaFailed), lib3)
      | (Return (Some media2), lib3) \<Rightarrow> generateDerived lib3 media2 options False))))))))))))"

definition AddMediaFromURLToModel ::
  "library \<Rightarrow> string \<Rightarrow> string \<Rightarrow> nat \<Rightarrow> string \<Rightarrow> (options \<Rightarrow> options) list \<Rightarrow>
   (error + media) outcome \<times> library" where
  "AddMediaFromURLToModel lib urlStr modelType modelID collection opts =
     AddMediaFromURL lib urlStr collection (WithModel modelType modelID # opts)"

definition AddMediaFromDisk ::
  "library \<Rightarrow> string \<Rightarrow> string \<Rightarrow> (options \<Rightarrow> options) list \<Rightarrow>
   (error + media) outcome \<times> library" where
  "AddMediaFromDisk lib filePath collection opts =
     (case localFiles lib filePath of
        None \<Rightarrow> (Return (Inl OpenFileFailed), lib)
      | Some fileContent \<Rightarrow>
     (case drawUUID lib of
        (None, lib0) \<Rightarrow> (Return (Inl GenerateUUIDFailed), lib0)
      | (Some uuid, lib0) \<Rightarrow>
     (let options = callOptions lib0 (optDefaultDisk (defaultOptions lib0)) opts;
          baseName = Base filePath;
          diskName = optDefaultDisk options
      in
     (case GetDisk lib0 diskName of
        None \<Rightarrow> (Return (Inl DiskNotFound), lib0)
      | Some disk \<Rightarrow>
     (case setCustomProperties options
             (newMedia options uuid collection baseName diskName (int (length fileContent))
                (mimeOf lib0 fileContent baseName)) of
        None \<Rightarrow> (Return (Inl MarshalCustomPropertiesFailed), lib0)
      | Some media0 \<Rightarrow>
     (case saveRecord lib0 media0 of
        (Panic, lib1) \<Rightarrow> (Panic, lib1)
      | (Return None, lib1) \<Rightarrow> (Return (Inl SaveMediaFailed), lib1)
      | (Return (Some media1), lib1) \<Rightarrow>
     (case writeDisk lib1 diskName (GetPath (pathPrefix lib1) media1) (Some fileContent) of
        (False, lib2) \<Rightarrow> (Return (Inl StoreFileFailed), lib2)
      | (True, lib2) \<Rightarrow> generateDerived lib2 media1 options True)))))))"

definition AddMediaFromDiskToDisk ::
  "library \<Rightarrow> string \<Rightarrow> string \<Rightarrow> string \<Rightarrow> string \<Rightarrow> (options \<Rightarrow> options) list \<Rightarrow>
   (error + media) outcome \<times> library" where
  "AddMediaFromDiskToDisk lib sourceDisk sourcePath targetDisk collection opts =
     (case GetDisk lib sourceDisk of
        None \<Rightarrow> (Return (Inl SourceDiskNotFound), lib)
      | Some sourceDiskStorage \<Rightarrow>
     (case Storage_Exists sourceDiskStorage sourcePath of
        None \<Rightarrow> (Return (Inl ExistsCheckFailed), lib)
      | Some False \<Rightarrow> (Return (Inl FileDoesNotExist), lib)
      | Some True \<Rightarrow>
     (case Storage_Get sourceDiskStorage sourcePath of
        None \<Rightarrow> (Return (Inl GetFileFailed), lib)
      | Some fileContent \<Rightarrow>
     (case drawUUID lib of
        (None, lib0) \<Rightarrow> (Return (Inl GenerateUUIDFailed), lib0)
      | (Some uuid, lib0) \<Rightarrow>
     (let options = callOptions lib0 targetDisk opts in
     (case GetDisk lib0 targetDisk of
        None \<Rightarrow> (Return (Inl TargetDiskNotFound), lib0)
      | Some targetDiskStorage \<Rightarrow>
     (let baseName = Base sourcePath in
     (case setCustomProperties options
             (newMedia options uuid collection baseName targetDisk (int (length fileContent))
                (mimeOf lib0 fileContent baseName)) of
        None \<Rightarrow> (Return (Inl MarshalCustomPropertiesFailed), lib0)
      | Some media0 \<Rightarrow>
     (case saveRecord lib0 media0 of
        (Panic, lib1) \<Rightarrow> (Panic, lib1)
      | (Return None, lib1) \<Rightarrow> (Return (Inl SaveMediaFailed), lib1)
      | (Return (Some media1), lib1) \<Rightarrow>
     (case writeDisk lib1 targetDisk (GetPath (pathPrefix lib1) media1) (Some fileContent) of
        (False, lib2) \<Rightarrow> (Return (Inl StoreFileFailed), lib2)
      | (True, lib2) \<Rightarrow> generateDerived lib2 media1 options True))))))))))"

text \<open>
  \<open>CopyMediaToDisk\<close> and \<open>MoveMediaToDisk\<close>: a new record with a new UUID and no identifier
  is saved, and the bytes of the original are written under the new record's path.
\<close>

definition CopyMediaToDisk :: "library \<Rightarrow> media \<Rightarrow> string \<Rightarrow> (error + media) outcome \<times> library" where
  "CopyMediaToDisk lib m targetDisk =
     (case GetDisk lib (Disk m) of
        None \<Rightarrow> (Return (Inl SourceDiskNotFound), lib)
      | Some sourceDiskStorage \<Rightarrow>
     (case GetDisk lib targetDisk of
        None \<Rightarrow> (Return (Inl TargetDiskNotFound), lib)
      | Some targetDiskStorage \<Rightarrow>
     (let sourcePath = GetPath (pathPrefix lib) m in
     (case Storage_Exists sourceDiskStorage sourcePath of
        None \<Rightarrow> (Return (Inl ExistsCheckFailed), lib)
      | Some False \<Rightarrow> (Return (Inl FileDoesNotExist), lib)
      | Some True \<Rightarrow>
     (case Storage_Get sourceDiskStorage sourcePath of
        None \<Rightarrow> (Return (Inl GetFileFailed), lib)
      | Some fileContent \<Rightarrow>
     (case drawUUID lib of
        (None, lib0) \<Rightarrow> (Return (Inl GenerateUUIDFailed), lib0)
      | (Some uuid, lib0) \<Rightarrow>
     (case saveRecord lib0
             \<lparr>ID = 0, ModelType = ModelType m, ModelID = ModelID m, UUID = Some uuid,
              CollectionName = CollectionName m, Name = Name m, FileName = FileName m,
              MimeType = MimeType m, Disk = targetDisk, ConversionsDisk = ConversionsDisk m,
              Size = int (length fileContent), Manipulations = Manipulations m,
              CustomProperties = CustomProperties m,
              GeneratedConversions = GeneratedConversions m,
              ResponsiveImages = ResponsiveImages m, OrderColumn = OrderColumn m\<rparr> of
        (Panic, lib1) \<Rightarrow> (Panic, lib1)
      | (Return None, lib1) \<Rightarrow> (Return (Inl SaveMediaFailed), lib1)
      | (Return (Some copiedMedia), lib1) \<Rightarrow>
     (case writeDisk lib1 targetDisk (GetPath (pathPrefix lib1) copiedMedia)
             (Some fileContent) of
        (False, lib2) \<Rightarrow> (Return (Inl StoreFileFailed), lib2)
      | (True, lib2) \<Rightarrow> (Return (Inr copiedMedia), lib2)))))))))"

definition MoveMediaToDisk :: "library \<Rightarrow> media \<Rightarrow> string \<Rightarrow> (error + media) outcome \<times> library" where
  "MoveMediaToDisk lib m targetDisk =
     (case GetDisk lib (Disk m) of
        None \<Rightarrow> (Return (Inl SourceDiskNotFound), lib)
      | Some sourceDiskStorage \<Rightarrow>
     (case GetDisk lib targetDisk of
        None \<Rightarrow> (Return (Inl TargetDiskNotFound), lib)
      | Some targetDiskStorage \<Rightarrow>
     (let sourcePath = GetPath (pathPrefix lib) m in
     (case Storage_Exists sourceDiskStorage sourcePath of
        None \<Rightarrow> (Return (Inl ExistsCheckFailed), lib)
      | Some False \<Rightarrow> (Return (Inl FileDoesNotExist), lib)
      | Some True \<Rightarrow>
     (case Storage_Get sourceDiskStorage sourcePath of
        None \<Rightarrow> (Return (Inl GetFileFailed), lib)
      | Some fileContent \<Rightarrow>
     (case drawUUID lib of
        (None, lib0) \<Rightarrow> (Return (Inl GenerateUUIDFailed), lib0)
      | (Some uuid, lib0) \<Rightarrow>
     (case saveRecord lib0
             \<lparr>ID = 0, ModelType = ModelType m, ModelID = ModelID m, UUID = Some uuid,
              CollectionName = CollectionName m, Name = Name m, FileName = FileName m,
              MimeType = mimeOf lib0 fileContent (FileName m), Disk = targetDisk,
              ConversionsDisk = ConversionsDisk m, Size = int (length fileContent),
              Manipulations = Manipulations m, CustomProperties = CustomProperties m,
              GeneratedConversions = GeneratedConversions m,
              ResponsiveImages = ResponsiveImages m, OrderColumn = OrderColumn m\<rparr> of
        (Panic, lib1) \<Rightarrow> (Panic, lib1)
      | (Return None, lib1) \<Rightarrow> (Return (Inl SaveMediaFailed), lib1)
      | (Return (Some movedMedia), lib1) \<Rightarrow>
     (case writeDisk lib1 targetDisk (GetPath (pathPrefix lib1) movedMedia)
             (Some fileContent) of
        (False, lib2) \<Rightarrow> (Return (Inl StoreFileFailed), lib2)
      | (True, lib2) \<Rightarrow>
     (case deleteFromDisk lib2 (Disk m) sourcePath of
        (False, lib3) \<Rightarrow> (Return (Inl DeleteFileFailed), lib3)
      | (True, lib3) \<Rightarrow> (Return (Inr movedMedia), lib3))))))))))"


section \<open>Sample data\<close>

text \<open>
  A small library for concrete runs: a disk \<open>local\<close> holding the original of record 42 and an
  empty disk \<open>archive\<close>, each with a \<open>Storage\<close> of its own, a repository holding the row of the
  record, a UUID generator that has issued \<open>u-0\<close> and \<open>u-1\<close>, a transformer with the
  conversions \<open>thumbnail\<close> and \<open>responsive\<close> (the latter also registered as a responsive
  conversion of width 320), and codecs that accept every input.
\<close>

definition sampleMedia :: "nat \<Rightarrow> string \<Rightarrow> media" where
  "sampleMedia n file =
     \<lparr>ID = n, ModelType = ''posts'', ModelID = 1, UUID = Some ''u-1'', CollectionName = ''gallery'',
      Name = ''photo'', FileName = file, MimeType = ''image/jpeg'', Disk = ''local'',
      ConversionsDisk = ''local'', Size = 3, Manipulations = RawJSON (JObject []),
      CustomProperties = RawJSON (JObject []), GeneratedConversions = RawJSON (JObject []),
      ResponsiveImages = RawJSON (JObject []), OrderColumn = None\<rparr>"

definition sampleDisk :: "(string \<rightharpoonup> string) \<Rightarrow> disk" where
  "sampleDisk table =
     \<lparr>objects = table, urlFor = (\<lambda>path. ''/files/'' @ path), saveFails = (\<lambda>path. False),
      getFails = (\<lambda>path. False), existsFails = (\<lambda>path. False),
      deleteFails = (\<lambda>path. False)\<rparr>"

definition sampleTransformer :: transformer where
  "sampleTransformer =
     \<lparr>conversions =
        [''thumbnail'' \<mapsto> (\<lambda>img opts. Some (Image 150 150)),
         ''responsive'' \<mapsto> (\<lambda>img opts. Some (Image (nat (Width opts)) 1))],
      responsiveConversions = [''responsive'' \<mapsto> \<lparr>Widths = [320], Options = NewOptions []\<rparr>]\<rparr>"

definition sampleOptions :: options where
  "sampleOptions =
     \<lparr>optDefaultDisk = ''local'', optConversionsDisk = ''local'',
      optAutoGenerateConversions = False, optPerformConversions = [],
      optGenerateResponsiveImages = [], optCustomProperties = [], optModelType = '''',
      optModelID = 0, optPathGeneratorPrefix = ''media'', optName = ''''\<rparr>"

definition sampleLibrary :: "string \<Rightarrow> library" where
  "sampleLibrary file =
     \<lparr>diskManager = [''local'' \<mapsto> 0, ''archive'' \<mapsto> 1],
      storages =
        (\<lambda>storage. if storage = 0
           then sampleDisk [GetPath ''media'' (sampleMedia 42 file) \<mapsto> ''abc'']
           else sampleDisk Map.empty),
      transformer = sampleTransformer,
      repository =
        \<lparr>implementation = GormMediaRepository, rows = [(42, sampleMedia 42 file)], lastID = 42,
         rejects = (\<lambda>m. False)\<rparr>,
      defaultOptions = sampleOptions,
      pathPrefix = ''media'',
      decodeImage = (\<lambda>bytes. Some (Image 10 10)),
      encodeImage = (\<lambda>c img. Some ''xyz''),
      detectMime = (\<lambda>bytes. Some ''image/png''),
      uuidSource = (\<lambda>n. Some (''u-'' @ show_nat n)),
      uuidsDrawn = 2,
      parseURL = (\<lambda>url. Some ''/photo.jpg''),
      localFiles = [''/tmp/photo.jpg'' \<mapsto> ''abc''],
      remoteFiles = [''http://example.com/photo.jpg'' \<mapsto> ''abc''],
      events = []\<rparr>"


text \<open>A record like \<open>sampleMedia 42\<close> whose two indexes already hold an entry.\<close>

definition indexedMedia :: media where
  "indexedMedia =
     (sampleMedia 42 ''photo.jpg'')
       \<lparr>GeneratedConversions := RawJSON (JObject [(''old'', JBool True)]),
        ResponsiveImages := RawJSON (JObject [(''old'', JObject [(''100'', JBool True)])])\<rparr>"


text \<open>The sample library with a repository that rejects every save.\<close>

definition rejectingLibrary :: library where
  "rejectingLibrary =
     (sampleLibrary ''photo.jpg'')
       \<lparr>repository :=
          \<lparr>implementation = GormMediaRepository, rows = [], lastID = 0, rejects = (\<lambda>m. True)\<rparr>\<rparr>"


text \<open>
  The sample library with a conversion, also registered as a responsive one, whose name is
  the single byte FF, which is not valid UTF-8.
\<close>

definition byteNameLibrary :: library where
  "byteNameLibrary =
     (sampleLibrary ''photo.jpg'')
       \<lparr>transformer :=
          \<lparr>conversions = [[CHR 0xFF] \<mapsto> (\<lambda>img opts. Some (Image 150 150))],
           responsiveConversions = [[CHR 0xFF] \<mapsto> \<lparr>Widths = [320], Options = NewOptions []\<rparr>]\<rparr>\<rparr>"

text \<open>The sample library with a second name, \<open>mirror\<close>, for the \<open>Storage\<close> of \<open>local\<close>.\<close>

definition aliasedLibrary :: "string \<Rightarrow> library" where
  "aliasedLibrary file =
     (sampleLibrary file)\<lparr>diskManager := [''local'' \<mapsto> 0, ''mirror'' \<mapsto> 0]\<rparr>"


section \<open>Notions used in the properties\<close>

text \<open>
  A conversion name is marked in the index of a record when the index decodes, as the
  library decodes it, to a map that holds \<open>true\<close> for the name. Likewise for a width key
  under a conversion name in the index of responsive images, read the way
  \<open>GenerateResponsiveImages\<close> writes it.
\<close>

definition conversionIndexed :: "media \<Rightarrow> string \<Rightarrow> bool" where
  "conversionIndexed m conversionName =
     (case Unmarshal (unmarshalMap unmarshalBool) (GeneratedConversions m) of
        None \<Rightarrow> False
      | Some generatedConversions \<Rightarrow> mapTrue generatedConversions conversionName)"

definition responsiveIndexed :: "media \<Rightarrow> string \<Rightarrow> string \<Rightarrow> bool" where
  "responsiveIndexed m conversionName widthKey =
     (case Unmarshal (unmarshalMap (unmarshalMap unmarshalBool)) (ResponsiveImages m) of
        None \<Rightarrow> False
      | Some responsiveImages \<Rightarrow> mapTrue (innerMap responsiveImages conversionName) widthKey)"

text \<open>
  What \<open>PerformConversions\<close> and \<open>GenerateResponsiveImages\<close> both do first: look up the two
  disks, fetch the original and decode it.
\<close>

definition originalImage :: "library \<Rightarrow> media \<Rightarrow> error + image" where
  "originalImage lib m =
     (case GetDisk lib (Disk m) of
        None \<Rightarrow> Inl SourceDiskNotFound
      | Some sourceDisk \<Rightarrow>
          (case GetDisk lib (ConversionsDisk m) of
             None \<Rightarrow> Inl ConversionsDiskNotFound
           | Some conversionsDisk \<Rightarrow>
               (case Storage_Get sourceDisk (GetPath (pathPrefix lib) m) of
                  None \<Rightarrow> Inl GetFileFailed
                | Some fileBytes \<Rightarrow>
                    (case decodeImage lib fileBytes of
                       None \<Rightarrow> Inl DecodeImageFailed
                     | Some img \<Rightarrow> Inr img))))"


text \<open>What a call added to the list of events.\<close>

definition newEvents :: "library \<Rightarrow> library \<Rightarrow> event list" where
  "newEvents before after = drop (length (events before)) (events after)"

fun isWrite :: "event \<Rightarrow> bool" where
  "isWrite (StorageWrite d p ok) = True"
| "isWrite _ = False"

fun isTransform :: "event \<Rightarrow> bool" where
  "isTransform (TransformCall n w ok) = True"
| "isTransform _ = False"

text \<open>No disk write comes before the first successful save of the repository.\<close>

fun writesFollowSave :: "event list \<Rightarrow> bool" where
  "writesFollowSave [] = True"
| "writesFollowSave (RepositorySave True # evs) = True"
| "writesFollowSave (StorageWrite d p ok # evs) = False"
| "writesFollowSave (e # evs) = writesFollowSave evs"

text \<open>
  The events of an ingestion: none, or a rejected save alone, or a successful save followed
  by whatever comes after it. In the first two cases the operation returns an error.
\<close>

definition ingestionShape :: "library \<Rightarrow> (error + media) outcome \<times> library \<Rightarrow> bool" where
  "ingestionShape lib res =
     ((newEvents lib (snd res) = [] \<and> (\<exists>e. fst res = Return (Inl e))) \<or>
      (newEvents lib (snd res) = [RepositorySave False] \<and> (\<exists>e. fst res = Return (Inl e))) \<or>
      (\<exists>evs. newEvents lib (snd res) = RepositorySave True # evs))"


text \<open>The object stored under a key on a named disk, if any.\<close>

definition objectAt :: "library \<Rightarrow> string \<Rightarrow> string \<Rightarrow> string option" where
  "objectAt lib diskName path =
     (case GetDisk lib diskName of None \<Rightarrow> None | Some d \<Rightarrow> objects d path)"




text \<open>Maps whose association lists have distinct keys, as every Go map has.\<close>

definition distinctKeys :: "'v gomap \<Rightarrow> bool" where
  "distinctKeys m = (case m of None \<Rightarrow> True | Some kvs \<Rightarrow> distinct (map fst kvs))"

definition distinctNested :: "bool gomap gomap \<Rightarrow> bool" where
  "distinctNested m =
     (case m of
        None \<Rightarrow> True
      | Some kvs \<Rightarrow> distinct (map fst kvs) \<and> list_all (\<lambda>(k, inner). distinctKeys inner) kvs)"

text \<open>
  A string that \<open>encoding/json\<close> writes and reads back as it is; maps all of whose keys are
  such strings; and maps of booleans whose other keys, if any, hold \<open>true\<close>.
\<close>

definition validUTF8 :: "string \<Rightarrow> bool" where
  "validUTF8 s = (toValidUTF8 s = s)"

definition validKeys :: "'v gomap \<Rightarrow> bool" where
  "validKeys m = (case m of None \<Rightarrow> True | Some kvs \<Rightarrow> list_all (\<lambda>(k, x). validUTF8 k) kvs)"

definition otherKeysTrue :: "bool gomap \<Rightarrow> bool" where
  "otherKeysTrue m =
     (case m of None \<Rightarrow> True | Some kvs \<Rightarrow> list_all (\<lambda>(k, b). validUTF8 k \<or> b) kvs)"

definition validNested :: "bool gomap gomap \<Rightarrow> bool" where
  "validNested m =
     (distinctNested m \<and> validKeys m \<and>
      (case m of None \<Rightarrow> True | Some kvs \<Rightarrow> list_all (\<lambda>(k, inner). validKeys inner) kvs))"



section \<open>Properties of path derivation\<close>

declare show_nat.simps [simp del]

lemma show_nat_digits: "set (show_nat n) \<subseteq> set ''0123456789''"
proof (induction n rule: show_nat.induct)
  case (1 n)
  have d: "\<And>k::nat. k < 10 \<Longrightarrow> ''0123456789'' ! k \<in> set ''0123456789''"
    by (rule nth_mem) simp
  show ?case
  proof (cases "n < 10")
    case True
    then show ?thesis using d [of n] by (subst show_nat.simps) simp
  next
    case False
    have "n mod 10 < 10" by simp
    then show ?thesis using False 1 d [of "n mod 10"] by (subst show_nat.simps) simp
  qed
qed

lemma show_nat_nonempty: "show_nat n \<noteq> []"
  by (subst show_nat.simps) simp

lemma show_nat_plain: "plainElement (show_nat n)"
proof -
  have "CHR ''/'' \<notin> set (show_nat n)" "CHR ''.'' \<notin> set (show_nat n)"
    using show_nat_digits [of n] by auto
  then show ?thesis
    using show_nat_nonempty [of n] by (auto simp: plainElement_def)
qed

lemma splitSlash_nonempty: "splitSlash s \<noteq> []"
  by (induction s) (auto split: list.splits)

lemma splitSlash_append: "splitSlash (a @ CHR ''/'' # b) = splitSlash a @ splitSlash b"
  using splitSlash_nonempty by (induction a) (auto split: list.splits)

lemma splitSlash_plain: "CHR ''/'' \<notin> set s \<Longrightarrow> splitSlash s = [s]"
  by (induction s) auto

lemma cleanStep_plain: "plainElement s \<Longrightarrow> cleanStep r out s = s # out"
  by (simp add: plainElement_def)

lemma cleanOut_push:
  "plainElement s \<Longrightarrow>
   foldl (cleanStep r) [] (splitSlash (p @ CHR ''/'' # s)) = s # foldl (cleanStep r) [] (splitSlash p)"
  by (simp add: splitSlash_append splitSlash_plain cleanStep_plain plainElement_def)

lemma cleanOut_slash:
  "foldl (cleanStep r) [] (splitSlash (p @ ''/'')) = foldl (cleanStep r) [] (splitSlash p)"
  by (simp add: splitSlash_append)

lemma joinSlash_snoc: "xs \<noteq> [] \<Longrightarrow> joinSlash (xs @ [y]) = joinSlash xs @ CHR ''/'' # y"
  by (induction xs rule: joinSlash.induct) auto

lemma Clean_push:
  assumes "plainElement s" and "foldl (cleanStep (hd (p @ ''/'') = CHR ''/'')) [] (splitSlash p) \<noteq> []"
  shows "Clean (p @ CHR ''/'' # s) = Clean p @ CHR ''/'' # s"
proof -
  have ne: "p \<noteq> []" using assms(2) by auto
  then have hd: "hd (p @ CHR ''/'' # s) = hd p" "hd (p @ ''/'') = hd p" by simp_all
  show ?thesis
  proof (cases "hd p = CHR ''/''")
    case True
    then show ?thesis
      using assms ne by (simp add: Clean_def Let_def hd cleanOut_push joinSlash_snoc)
  next
    case False
    then show ?thesis
      using assms ne by (simp add: Clean_def Let_def hd cleanOut_push joinSlash_snoc)
  qed
qed

lemma Clean_slash: "p \<noteq> [] \<Longrightarrow> Clean (p @ ''/'') = Clean p"
  by (simp add: Clean_def Let_def cleanOut_slash)

lemma Ext_suffix_aux: "\<exists>pre. rev cs @ seen = pre @ extScan cs seen"
proof (induction cs arbitrary: seen)
  case Nil
  then show ?case by simp
next
  case (Cons c cs)
  show ?case
  proof (cases "c = CHR ''/'' \<or> c = CHR ''.''")
    case True
    then show ?thesis by auto
  next
    case False
    then show ?thesis using Cons [of "c # seen"] by simp
  qed
qed

lemma TrimSuffix_Ext: "TrimSuffix s (Ext s) @ Ext s = s"
proof -
  obtain pre where "s = pre @ Ext s"
    using Ext_suffix_aux [of "rev s" "[]"] by (auto simp: Ext_def)
  then have "length (Ext s) \<le> length s" "drop (length s - length (Ext s)) s = Ext s"
    by (metis length_append le_add2, metis append_eq_conv_conj length_append add_diff_cancel_right')
  moreover have "take (length s - length (Ext s)) s @ drop (length s - length (Ext s)) s = s"
    by (rule append_take_drop_id)
  ultimately show ?thesis
    by (simp only: TrimSuffix_def if_True simp_thms)
qed

lemma extScan_no_slash: "CHR ''/'' \<notin> set cs \<Longrightarrow> CHR ''/'' \<notin> set seen \<Longrightarrow> CHR ''/'' \<notin> set (extScan cs seen)"
  by (induction cs arbitrary: seen) auto

lemma Ext_no_slash: "CHR ''/'' \<notin> set s \<Longrightarrow> CHR ''/'' \<notin> set (Ext s)"
  by (simp add: Ext_def extScan_no_slash)

lemma TrimSuffix_no_slash: "CHR ''/'' \<notin> set s \<Longrightarrow> CHR ''/'' \<notin> set (TrimSuffix s x)"
  by (auto simp: TrimSuffix_def dest: in_set_takeD)

lemma dashed_plain:
  assumes "CHR ''/'' \<notin> set a" "CHR ''/'' \<notin> set b" "CHR ''/'' \<notin> set c"
  shows "plainElement (a @ ''-'' @ b @ c)"
proof -
  have "CHR ''-'' \<in> set (a @ ''-'' @ b @ c)" by simp
  moreover have "CHR ''-'' \<notin> set ''.''" "CHR ''-'' \<notin> set ''..''" by simp_all
  ultimately have "a @ ''-'' @ b @ c \<noteq> ''.''" "a @ ''-'' @ b @ c \<noteq> ''..''" by metis+
  then show ?thesis using assms by (simp add: plainElement_def)
qed

lemma base_out:
  "foldl (cleanStep r) [] (splitSlash (prefix @ ''/'' @ show_nat n)) \<noteq> []"
  using cleanOut_push [OF show_nat_plain, of r prefix n] by simp


lemma out_push_ne:
  "plainElement s \<Longrightarrow> foldl (cleanStep r) [] (splitSlash (p @ CHR ''/'' # s)) \<noteq> []"
  by (simp add: cleanOut_push)

lemma Clean_base_file:
  assumes "plainElement f"
  shows "Clean ((prefix @ ''/'' @ show_nat n @ ''/'') @ ''/'' @ f) =
         Clean (prefix @ ''/'' @ show_nat n) @ ''/'' @ f"
proof -
  let ?B = "prefix @ ''/'' @ show_nat n"
  have ne: "foldl (cleanStep r) [] (splitSlash (?B @ ''/'')) \<noteq> []" for r
    by (subst cleanOut_slash) (rule base_out)
  have "Clean ((?B @ ''/'') @ CHR ''/'' # f) = Clean (?B @ ''/'') @ CHR ''/'' # f"
    by (rule Clean_push [OF assms ne])
  moreover have "Clean (?B @ ''/'') = Clean ?B"
    by (rule Clean_slash) simp
  ultimately show ?thesis by simp
qed

lemma Clean_base_three:
  assumes "plainElement a" "plainElement b" "plainElement c"
  shows "Clean ((prefix @ ''/'' @ show_nat n @ ''/'') @ ''/'' @ a @ ''/'' @ b @ ''/'' @ c) =
         Clean (prefix @ ''/'' @ show_nat n) @ ''/'' @ a @ ''/'' @ b @ ''/'' @ c"
proof -
  let ?B = "prefix @ ''/'' @ show_nat n @ ''/''"
  have 1: "Clean (?B @ CHR ''/'' # a) = Clean (prefix @ ''/'' @ show_nat n) @ CHR ''/'' # a"
    using Clean_base_file [OF assms(1), of prefix n] by simp
  have 2: "Clean ((?B @ CHR ''/'' # a) @ CHR ''/'' # b) = Clean (?B @ CHR ''/'' # a) @ CHR ''/'' # b"
    by (rule Clean_push [OF assms(2) out_push_ne [OF assms(1)]])
  have 3: "Clean (((?B @ CHR ''/'' # a) @ CHR ''/'' # b) @ CHR ''/'' # c) =
           Clean ((?B @ CHR ''/'' # a) @ CHR ''/'' # b) @ CHR ''/'' # c"
    by (rule Clean_push [OF assms(3) out_push_ne [OF assms(2)]])
  show ?thesis using 1 2 3 by simp
qed

lemma conversions_plain: "plainElement ''conversions''"
  by (simp add: plainElement_def)

text \<open>
  Claim C8, as amended. \<open>GetPath\<close> depends on the prefix, the identifier and the file name
  only: any record \<open>m'\<close> given the identifier and the file name of \<open>m\<close> has the key of \<open>m\<close>. When the file name and the conversion name are ordinary path elements, \<open>GetPath\<close> is
  the cleaned base path \<open>{prefix}/{ID}\<close> followed by the file name, and
  \<open>GetPathForConversion\<close> is the same base path followed by \<open>{name}/conversions/\<close> and the
  file name with \<open>-{name}\<close> put between its stem and its extension.
\<close>

theorem conversion_path_shape:
  assumes "plainElement (FileName m)" and "plainElement name"
  shows "GetPath prefix (m'\<lparr>ID := ID m, FileName := FileName m\<rparr>) = GetPath prefix m \<and>
         (let base = Clean (prefix @ ''/'' @ show_nat (ID m));
              ext = Ext (FileName m);
              stem = TrimSuffix (FileName m) ext
          in stem @ ext = FileName m \<and>
             GetPath prefix m = base @ ''/'' @ stem @ ext \<and>
             GetPathForConversion prefix m name =
               base @ ''/'' @ name @ ''/conversions/'' @ stem @ ''-'' @ name @ ext)"
proof -
  let ?ext = "Ext (FileName m)"
  let ?stem = "TrimSuffix (FileName m) ?ext"
  have split: "?stem @ ?ext = FileName m" by (rule TrimSuffix_Ext)
  have ns: "CHR ''/'' \<notin> set (FileName m)" "CHR ''/'' \<notin> set name"
    using assms by (simp_all add: plainElement_def)
  have fileElement: "plainElement (?stem @ ''-'' @ name @ ?ext)"
    using ns by (intro dashed_plain TrimSuffix_no_slash Ext_no_slash)
  have p: "GetPath prefix m = Clean (prefix @ ''/'' @ show_nat (ID m)) @ ''/'' @ FileName m"
    using Clean_base_file [OF assms(1), of prefix "ID m"]
    by (simp add: GetPath_def cleanPath_def getBasePath_def)
  have c: "GetPathForConversion prefix m name =
        Clean (prefix @ ''/'' @ show_nat (ID m)) @ ''/'' @ name @ ''/conversions/'' @
        ?stem @ ''-'' @ name @ ?ext"
    using Clean_base_three [OF assms(2) conversions_plain fileElement, of prefix "ID m"]
    by (simp add: GetPathForConversion_def cleanPath_def getBasePath_def Let_def)
  have d: "GetPath prefix (m'\<lparr>ID := ID m, FileName := FileName m\<rparr>) = GetPath prefix m"
    by (simp add: GetPath_def getBasePath_def)
  show ?thesis
    unfolding Let_def using split p c d by simp
qed

theorem conversion_path_shape_witness:
  "plainElement ''photo.jpg'' \<and> plainElement ''thumb'' \<and>
   GetPath ''media'' ((sampleMedia 7 ''x.png'')\<lparr>ID := 42, FileName := ''photo.jpg''\<rparr>) =
     ''media/42/photo.jpg'' \<and>
   GetPath ''media'' (sampleMedia 42 ''photo.jpg'') = ''media/42/photo.jpg'' \<and>
   GetPathForConversion ''media'' (sampleMedia 42 ''photo.jpg'') ''thumb'' =
     ''media/42/thumb/conversions/photo-thumb.jpg''"
proof -
  have f: "plainElement (FileName (sampleMedia 42 ''photo.jpg''))"
    by (simp add: sampleMedia_def plainElement_def)
  have n: "plainElement ''thumb''" by (simp add: plainElement_def)
  show ?thesis
    using conversion_path_shape [OF f n, of "''media''" "sampleMedia 7 ''x.png''"] f n
    by (simp add: Let_def sampleMedia_def Clean_def show_nat.simps Ext_def TrimSuffix_def)
qed

text \<open>
  The claim as stated fails for the file name \<open>.\<close> (what \<open>filepath.Base\<close> makes of a URL
  without a path): cleaning removes the file name from the original's key, so the
  conversion's key is not that key with a segment and a suffix inserted.
\<close>

theorem conversion_path_shape_counterexample:
  "\<not> (\<exists>dir. GetPath ''media'' (sampleMedia 42 ''.'') = dir @ FileName (sampleMedia 42 ''.'') \<and>
      GetPathForConversion ''media'' (sampleMedia 42 ''.'') ''thumb'' =
        dir @ ''thumb'' @ ''/conversions/'' @
        TrimSuffix (FileName (sampleMedia 42 ''.'')) (Ext (FileName (sampleMedia 42 ''.''))) @
        ''-'' @ ''thumb'' @ Ext (FileName (sampleMedia 42 ''.'')))"
proof
  assume "\<exists>dir. GetPath ''media'' (sampleMedia 42 ''.'') = dir @ FileName (sampleMedia 42 ''.'') \<and>
      GetPathForConversion ''media'' (sampleMedia 42 ''.'') ''thumb'' =
        dir @ ''thumb'' @ ''/conversions/'' @
        TrimSuffix (FileName (sampleMedia 42 ''.'')) (Ext (FileName (sampleMedia 42 ''.''))) @
        ''-'' @ ''thumb'' @ Ext (FileName (sampleMedia 42 ''.''))"
  then obtain dir where "GetPath ''media'' (sampleMedia 42 ''.'') = dir @ FileName (sampleMedia 42 ''.'')"
    by blast
  moreover have "GetPath ''media'' (sampleMedia 42 ''.'') = ''media/42''"
    by (simp add: GetPath_def getBasePath_def cleanPath_def Clean_def sampleMedia_def show_nat.simps)
  moreover have "FileName (sampleMedia 42 ''.'') = ''.''"
    by (simp add: sampleMedia_def)
  ultimately have "''media/42'' = dir @ ''.''"
    by simp
  then have "last ''media/42'' = last (dir @ ''.'')"
    by (rule arg_cong)
  then show False
    by simp
qed

section \<open>Strings as encoding/json writes and reads them\<close>

lemma startsIn_length: "startsIn rs cs \<Longrightarrow> length rs \<le> length cs"
  by (induction rs cs rule: startsIn.induct) auto

lemma startsIn_take: "startsIn rs cs \<Longrightarrow> startsIn rs (take (length rs) cs @ t)"
  by (induction rs cs rule: startsIn.induct) auto

lemma runeWidth_le: "runeWidth s \<le> length s"
  by (auto simp: runeWidth_def dest: startsIn_length split: list.splits option.splits)

lemma runeWidth_take:
  assumes "runeWidth (c # cs) = Suc n"
  shows "runeWidth (c # take n cs @ t) = Suc n"
  using assms by (auto simp: runeWidth_def startsIn_take split: option.splits if_splits)

lemma runeWidth_replacement: "runeWidth (CHR 0xEF # CHR 0xBF # CHR 0xBD # t) = 3"
  by (simp add: runeWidth_def leadRanges_def)

lemma toValidUTF8_rune:
  assumes "runeWidth (c # cs) = Suc n"
  shows "toValidUTF8 (c # take n cs @ t) = c # take n cs @ toValidUTF8 t"
proof -
  have "n \<le> length cs" using runeWidth_le [of "c # cs"] assms by simp
  then show ?thesis using runeWidth_take [OF assms, of t] by simp
qed

lemma toValidUTF8_idem: "toValidUTF8 (toValidUTF8 s) = toValidUTF8 s"
proof (induction s rule: toValidUTF8.induct)
  case 1
  then show ?case by simp
next
  case (2 c cs)
  show ?case
  proof (cases "runeWidth (c # cs)")
    case 0
    then show ?thesis using 2(1) runeWidth_replacement by simp
  next
    case (Suc n)
    then show ?thesis using 2(2) toValidUTF8_rune [OF Suc] by simp
  qed
qed

lemma validUTF8_coerced: "validUTF8 (toValidUTF8 s)"
  by (simp add: validUTF8_def toValidUTF8_idem)

lemma ascii_width: "of_char c < (128::nat) \<Longrightarrow> runeWidth (c # cs) = 1"
  by (simp add: runeWidth_def leadRanges_def)

lemma validUTF8_ascii: "(\<forall>c\<in>set s. of_char c < (128::nat)) \<Longrightarrow> validUTF8 s"
  unfolding validUTF8_def by (induction s) (simp_all add: ascii_width)

lemma validUTF8_show_nat: "validUTF8 (show_nat n)"
proof (rule validUTF8_ascii, rule ballI)
  fix c assume "c \<in> set (show_nat n)"
  then have "c \<in> set ''0123456789''" using show_nat_digits by blast
  then show "of_char c < (128::nat)" by auto
qed

lemma validUTF8_show_int: "validUTF8 (show_int i)"
proof (cases "i < 0")
  case True
  have "\<forall>c\<in>set (CHR ''-'' # show_nat (nat (- i))). of_char c < (128::nat)"
    using show_nat_digits [of "nat (- i)"] by auto
  then show ?thesis using True by (simp add: show_int_def validUTF8_ascii)
next
  case False
  then show ?thesis by (simp add: show_int_def validUTF8_show_nat)
qed

section \<open>The index and its JSON\<close>

lemma insertMember_set: "set (insertMember kv xs) = insert kv (set xs)"
  by (induction xs) auto

lemma sortMembers_set: "set (sortMembers kvs) = set kvs"
  by (induction kvs) (simp_all add: sortMembers_def insertMember_set)

lemma insertMember_distinct:
  "distinct (map fst (insertMember kv xs)) \<longleftrightarrow> fst kv \<notin> fst ` set xs \<and> distinct (map fst xs)"
  by (induction xs) (auto simp: insertMember_set)

lemma sortMembers_distinct: "distinct (map fst (sortMembers kvs)) = distinct (map fst kvs)"
  by (induction kvs) (simp_all add: sortMembers_def insertMember_distinct sortMembers_set [unfolded sortMembers_def])

lemma list_all_update:
  "list_all P al \<Longrightarrow> P (k, v) \<Longrightarrow> list_all P (AList.update k v al)"
  by (induction al) auto

lemma unmarshalMembers_lookup:
  "unmarshalMembers dec kvs acc = Some r \<Longrightarrow> map_of r k = Some x \<Longrightarrow>
   map_of acc k = Some x \<or> (\<exists>k' v. (k', v) \<in> set kvs \<and> toValidUTF8 k' = k \<and> dec v = Some x)"
proof (induction kvs arbitrary: acc)
  case Nil
  then show ?case by simp
next
  case (Cons kv kvs)
  obtain k0 v0 where kv: "kv = (k0, v0)" by (cases kv)
  from Cons.prems(1) kv obtain x0 where x0: "dec v0 = Some x0"
    and rest: "unmarshalMembers dec kvs (AList.update (toValidUTF8 k0) x0 acc) = Some r"
    by (auto split: option.splits)
  from Cons.IH [OF rest Cons.prems(2)]
  show ?case
    using x0 kv by (auto simp: update_conv' split: if_splits)
qed

lemma unmarshalMembers_dom:
  "unmarshalMembers dec kvs acc = Some r \<Longrightarrow>
   map_of acc k \<noteq> None \<or> k \<in> toValidUTF8 ` fst ` set kvs \<Longrightarrow> map_of r k \<noteq> None"
proof (induction kvs arbitrary: acc)
  case Nil
  then show ?case by simp
next
  case (Cons kv kvs)
  obtain k0 v0 where kv: "kv = (k0, v0)" by (cases kv)
  from Cons.prems(1) kv obtain x0 where x0: "dec v0 = Some x0"
    and rest: "unmarshalMembers dec kvs (AList.update (toValidUTF8 k0) x0 acc) = Some r"
    by (auto split: option.splits)
  have "map_of (AList.update (toValidUTF8 k0) x0 acc) k \<noteq> None \<or> k \<in> toValidUTF8 ` fst ` set kvs"
    using Cons.prems(2) kv by (auto simp: update_conv')
  from Cons.IH [OF rest this] show ?case .
qed

lemma unmarshalMembers_total:
  "(\<forall>(k, v) \<in> set kvs. dec v \<noteq> None) \<Longrightarrow> \<exists>r. unmarshalMembers dec kvs acc = Some r"
  by (induction kvs arbitrary: acc) auto

lemma unmarshalMembers_distinct:
  "unmarshalMembers dec kvs acc = Some r \<Longrightarrow> distinct (map fst acc) \<Longrightarrow> distinct (map fst r)"
proof (induction kvs arbitrary: acc)
  case Nil
  then show ?case by simp
next
  case (Cons kv kvs)
  obtain k v where kv: "kv = (k, v)" by (cases kv)
  from Cons.prems(1) kv obtain x where x: "dec v = Some x"
    and rest: "unmarshalMembers dec kvs (AList.update (toValidUTF8 k) x acc) = Some r"
    by (auto split: option.splits)
  show ?case
    by (rule Cons.IH [OF rest]) (simp add: distinct_update Cons.prems(2))
qed

lemma unmarshalMembers_all:
  "unmarshalMembers dec kvs acc = Some r \<Longrightarrow> list_all (\<lambda>(k, x). validUTF8 k \<and> P x) acc \<Longrightarrow>
   (\<And>v x. dec v = Some x \<Longrightarrow> P x) \<Longrightarrow> list_all (\<lambda>(k, x). validUTF8 k \<and> P x) r"
proof (induction kvs arbitrary: acc)
  case Nil
  then show ?case by simp
next
  case (Cons kv kvs)
  obtain k v where kv: "kv = (k, v)" by (cases kv)
  from Cons.prems(1) kv obtain x where x: "dec v = Some x"
    and rest: "unmarshalMembers dec kvs (AList.update (toValidUTF8 k) x acc) = Some r"
    by (auto split: option.splits)
  have "list_all (\<lambda>(k, x). validUTF8 k \<and> P x) (AList.update (toValidUTF8 k) x acc)"
    by (rule list_all_update [OF Cons.prems(2)]) (simp add: validUTF8_coerced Cons.prems(3) [OF x])
  then show ?case
    using Cons.IH [OF rest] Cons.prems(3) by blast
qed

lemma unmarshalMembers_fails:
  "(k, v) \<in> set kvs \<Longrightarrow> dec v = None \<Longrightarrow> unmarshalMembers dec kvs acc = None"
  by (induction kvs arbitrary: acc) (auto split: option.splits)

text \<open>What a decoded map is: its keys are distinct and are strings that are read back as they are.\<close>

lemma unmarshalMap_keys:
  assumes "unmarshalMap dec j = Some m"
  shows "distinctKeys m \<and> validKeys m"
proof (cases j)
  case (JObject kvs)
  with assms obtain r where r: "unmarshalMembers dec kvs [] = Some r" and m: "m = Some r"
    by auto
  have "list_all (\<lambda>(k, x). validUTF8 k \<and> True) r"
    by (rule unmarshalMembers_all [OF r]) simp_all
  then show ?thesis
    using unmarshalMembers_distinct [OF r] m by (simp add: distinctKeys_def validKeys_def)
qed (use assms in \<open>auto simp: distinctKeys_def validKeys_def\<close>)

lemma unmarshalBoolMap_distinct:
  "unmarshalMap dec j = Some m \<Longrightarrow> distinctKeys m"
  using unmarshalMap_keys by blast

lemma startingIndex_distinct: "distinctKeys (startingIndex dec raw)"
  by (auto simp: startingIndex_def distinctKeys_def Unmarshal_def split: option.splits raw_message.splits
      dest: unmarshalBoolMap_distinct [unfolded distinctKeys_def])

lemma startingIndex_valid: "validKeys (startingIndex dec raw)"
proof -
  have "validKeys (Some [])" by (simp add: validKeys_def)
  then show ?thesis
    using unmarshalMap_keys
    by (auto simp: startingIndex_def Unmarshal_def split: option.splits raw_message.splits)
qed

lemma validKeys_otherKeysTrue: "validKeys m \<Longrightarrow> otherKeysTrue m"
  by (auto simp: validKeys_def otherKeysTrue_def list_all_iff split: option.splits)

lemma unmarshal_nested:
  assumes "unmarshalMap (unmarshalMap dec) j = Some m"
  shows "validNested m"
proof (cases j)
  case (JObject kvs)
  with assms obtain r where r: "unmarshalMembers (unmarshalMap dec) kvs [] = Some r" and m: "m = Some r"
    by auto
  have "distinct (map fst r)" using unmarshalMembers_distinct [OF r] by simp
  moreover have "list_all (\<lambda>(k, x). validUTF8 k \<and> (distinctKeys x \<and> validKeys x)) r"
    by (rule unmarshalMembers_all [OF r]) (simp_all add: unmarshalMap_keys)
  ultimately show ?thesis
    using m by (auto simp: validNested_def distinctNested_def validKeys_def list_all_iff)
qed (use assms in \<open>auto simp: validNested_def distinctNested_def validKeys_def\<close>)

lemma startingIndex_nested: "validNested (startingIndex (unmarshalMap dec) raw)"
proof -
  have "validNested (Some [])" by (simp add: validNested_def distinctNested_def validKeys_def)
  then show ?thesis
    by (auto simp: startingIndex_def Unmarshal_def split: option.splits raw_message.splits
        dest: unmarshal_nested)
qed

text \<open>
  Reading back what was written. Every entry is found under its key as written, and what is
  found under a key is the value of an entry with that key as written.
\<close>

lemma marshalMembers_decoded:
  assumes "\<forall>(k, x) \<in> set kvs. dec (enc x) \<noteq> None"
  shows "\<exists>r. unmarshalMap dec (marshalMembers enc kvs) = Some (Some r) \<and>
           distinct (map fst r) \<and> validKeys (Some r) \<and>
           (\<forall>k y. map_of r k = Some y \<longrightarrow>
              (\<exists>k' x. (k', x) \<in> set kvs \<and> toValidUTF8 k' = k \<and> dec (enc x) = Some y)) \<and>
           (\<forall>k' x. (k', x) \<in> set kvs \<longrightarrow> map_of r (toValidUTF8 k') \<noteq> None)"
proof -
  let ?ms = "map (\<lambda>(k, x). (toValidUTF8 k, enc x)) (sortMembers kvs)"
  have "\<forall>(k, v) \<in> set ?ms. dec v \<noteq> None"
    using assms by (auto simp: sortMembers_set)
  from unmarshalMembers_total [OF this] obtain r where r: "unmarshalMembers dec ?ms [] = Some r"
    by blast
  have u: "unmarshalMap dec (marshalMembers enc kvs) = Some (Some r)"
    using r by (simp add: marshalMembers_def)
  have a: "\<exists>k' x. (k', x) \<in> set kvs \<and> toValidUTF8 k' = k \<and> dec (enc x) = Some y"
    if "map_of r k = Some y" for k y
  proof -
    from unmarshalMembers_lookup [OF r that]
    obtain k1 v where "(k1, v) \<in> set ?ms" "toValidUTF8 k1 = k" "dec v = Some y"
      by (simp del: set_map) blast
    then show ?thesis
      by (fastforce simp: sortMembers_set toValidUTF8_idem)
  qed
  have b: "map_of r (toValidUTF8 k') \<noteq> None" if "(k', x) \<in> set kvs" for k' x
  proof -
    have "(toValidUTF8 k', enc x) \<in> set ?ms"
      using that by (force simp: sortMembers_set)
    then have "toValidUTF8 (toValidUTF8 k') \<in> toValidUTF8 ` fst ` set ?ms"
      by force
    then show ?thesis
      using unmarshalMembers_dom [OF r, of "toValidUTF8 k'"] by (simp add: toValidUTF8_idem)
  qed
  show ?thesis
    using u a b unmarshalMap_keys [OF u] by (auto simp: distinctKeys_def)
qed

text \<open>A map of booleans: an entry that holds \<open>true\<close> under a valid key is read back.\<close>

lemma bools_total: "\<exists>g'. unmarshalMap unmarshalBool (marshalBoolMap g) = Some g'"
proof (cases g)
  case None
  then show ?thesis by (simp add: marshalBoolMap_def)
next
  case (Some kvs)
  have "\<forall>(k, x) \<in> set kvs. unmarshalBool (JBool x) \<noteq> None" by simp
  from marshalMembers_decoded [OF this] show ?thesis
    using Some by (auto simp: marshalBoolMap_def)
qed

lemma bools_keep:
  assumes "unmarshalMap unmarshalBool (marshalBoolMap g) = Some g'"
    and "distinctKeys g" and "otherKeysTrue g" and "mapTrue g k" and "validUTF8 k"
  shows "mapTrue g' k"
proof -
  from assms(4) obtain kvs where g: "g = Some kvs" and k: "map_of kvs k = Some True"
    by (auto simp: mapTrue_def mapLookup_def split: option.splits)
  have "\<forall>(k, x) \<in> set kvs. unmarshalBool (JBool x) \<noteq> None" by simp
  from marshalMembers_decoded [OF this] assms(1) g
  obtain r where g': "g' = Some r"
    and found: "\<And>k y. map_of r k = Some y \<Longrightarrow> \<exists>k' x. (k', x) \<in> set kvs \<and> toValidUTF8 k' = k \<and> x = y"
    and there: "\<And>k' x. (k', x) \<in> set kvs \<Longrightarrow> map_of r (toValidUTF8 k') \<noteq> None"
    by (auto simp: marshalBoolMap_def) blast
  have "(k, True) \<in> set kvs" using k by (rule map_of_SomeD)
  from there [OF this] obtain y where y: "map_of r k = Some y"
    using assms(5) by (auto simp: validUTF8_def)
  from found [OF y] obtain k' where k': "(k', y) \<in> set kvs" "toValidUTF8 k' = k" by blast
  have "y"
  proof (cases "k' = k")
    case True
    then have "map_of kvs k = Some y"
      using k' assms(2) g by (simp add: distinctKeys_def)
    then show ?thesis using k by simp
  next
    case False
    then have "\<not> validUTF8 k'" using k'(2) by (auto simp: validUTF8_def)
    then show ?thesis
      using assms(3) g k'(1) by (auto simp: otherKeysTrue_def list_all_iff)
  qed
  then show ?thesis using y g' by (simp add: mapTrue_def mapLookup_def)
qed

text \<open>A map with valid keys is read back as it is, apart from the order of its entries.\<close>

lemma valid_map_roundtrip:
  assumes "distinct (map fst kvs)" and "validKeys (Some kvs)"
    and "\<And>k x. (k, x) \<in> set kvs \<Longrightarrow> dec (enc x) = Some (h x)"
  shows "\<exists>r. unmarshalMap dec (marshalMembers enc kvs) = Some (Some r) \<and>
           distinct (map fst r) \<and> validKeys (Some r) \<and> map_of r = map_option h \<circ> map_of kvs"
proof -
  have v: "toValidUTF8 k = k" if "(k, x) \<in> set kvs" for k x
    using assms(2) that by (auto simp: validKeys_def validUTF8_def list_all_iff)
  have "\<forall>(k, x) \<in> set kvs. dec (enc x) \<noteq> None"
    using assms(3) by auto
  from marshalMembers_decoded [OF this]
  obtain r where u: "unmarshalMap dec (marshalMembers enc kvs) = Some (Some r)"
    and d: "distinct (map fst r)" and vr: "validKeys (Some r)"
    and found: "\<And>k y. map_of r k = Some y \<Longrightarrow>
        \<exists>k' x. (k', x) \<in> set kvs \<and> toValidUTF8 k' = k \<and> dec (enc x) = Some y"
    and there: "\<And>k' x. (k', x) \<in> set kvs \<Longrightarrow> map_of r (toValidUTF8 k') \<noteq> None"
    by blast
  have "map_of r k = map_option h (map_of kvs k)" for k
  proof (cases "map_of r k")
    case None
    have "map_of kvs k = None"
    proof (rule ccontr)
      assume "map_of kvs k \<noteq> None"
      then obtain x where "(k, x) \<in> set kvs" by (auto dest: map_of_SomeD)
      from there [OF this] v [OF this] None show False by simp
    qed
    then show ?thesis using None by simp
  next
    case (Some y)
    from found [OF Some] obtain k' x where x: "(k', x) \<in> set kvs" "toValidUTF8 k' = k"
      "dec (enc x) = Some y" by blast
    then have "k' = k" using v by auto
    then have "map_of kvs k = Some x" using x(1) assms(1) by simp
    then show ?thesis using Some x(3) assms(3) [OF x(1)] by simp
  qed
  then show ?thesis using u d vr by auto
qed

lemma bools_roundtrip:
  assumes "distinctKeys g" and "validKeys g"
  shows "\<exists>g'. unmarshalMap unmarshalBool (marshalBoolMap g) = Some g' \<and>
           mapLookup g' = mapLookup g \<and> (g' = None \<longleftrightarrow> g = None)"
proof (cases g)
  case None
  then show ?thesis by (simp add: marshalBoolMap_def)
next
  case (Some kvs)
  have "\<exists>r. unmarshalMap unmarshalBool (marshalMembers JBool kvs) = Some (Some r) \<and>
      distinct (map fst r) \<and> validKeys (Some r) \<and> map_of r = map_option id \<circ> map_of kvs"
    using assms Some by (intro valid_map_roundtrip) (simp_all add: distinctKeys_def)
  then show ?thesis
    using Some by (auto simp: marshalBoolMap_def mapLookup_def fun_eq_iff option.map_id)
qed

lemma responsive_roundtrip:
  assumes "validNested g"
  shows "\<exists>g'. unmarshalMap (unmarshalMap unmarshalBool) (marshalResponsive g) = Some g' \<and>
           (\<forall>c k. mapTrue (innerMap g' c) k = mapTrue (innerMap g c) k)"
proof (cases g)
  case None
  then show ?thesis by (simp add: marshalResponsive_def)
next
  case (Some kvs)
  define h where "h inner = the (unmarshalMap unmarshalBool (marshalBoolMap inner))" for inner
  have inner: "unmarshalMap unmarshalBool (marshalBoolMap x) = Some (h x) \<and>
      mapLookup (h x) = mapLookup x" if "(k, x) \<in> set kvs" for k x
  proof -
    have "distinctKeys x" "validKeys x"
      using assms Some that by (auto simp: validNested_def distinctNested_def list_all_iff)
    from bools_roundtrip [OF this] show ?thesis by (auto simp: h_def)
  qed
  have "\<exists>r. unmarshalMap (unmarshalMap unmarshalBool) (marshalMembers marshalBoolMap kvs) = Some (Some r) \<and>
      distinct (map fst r) \<and> validKeys (Some r) \<and> map_of r = map_option h \<circ> map_of kvs"
    using assms Some inner
    by (intro valid_map_roundtrip) (simp_all add: validNested_def distinctNested_def)
  then obtain r where u: "unmarshalMap (unmarshalMap unmarshalBool) (marshalResponsive g) = Some (Some r)"
    and l: "map_of r = map_option h \<circ> map_of kvs"
    using Some by (auto simp: marshalResponsive_def)
  have "mapTrue (innerMap (Some r) c) k = mapTrue (innerMap g c) k" for c k
  proof (cases "map_of kvs c")
    case None
    then show ?thesis using l Some by (simp add: innerMap_def mapLookup_def)
  next
    case (Some x)
    then have "(c, x) \<in> set kvs" by (rule map_of_SomeD)
    from inner [OF this] show ?thesis
      using l Some \<open>g = Some kvs\<close> by (simp add: innerMap_def mapLookup_def mapTrue_def split: option.splits)
  qed
  then show ?thesis using u by blast
qed

section \<open>The loop of PerformConversions\<close>

lemma writeDisk_frame:
  assumes "writeDisk lib d p c = (ok, lib')"
  shows "repository lib' = repository lib \<and> transformer lib' = transformer lib \<and>
         pathPrefix lib' = pathPrefix lib \<and> encodeImage lib' = encodeImage lib \<and>
         decodeImage lib' = decodeImage lib \<and> diskManager lib' = diskManager lib \<and>
         (\<exists>evs. events lib' = events lib @ evs \<and> filter isTransform evs = [])"
  using assms by (auto simp: writeDisk_def logEvent_def split: option.splits)

lemma convertOne_frame:
  assumes "convertOne lib m img n g = (r, lib')"
  shows "repository lib' = repository lib \<and> transformer lib' = transformer lib \<and>
         pathPrefix lib' = pathPrefix lib \<and> encodeImage lib' = encodeImage lib \<and>
         decodeImage lib' = decodeImage lib \<and> diskManager lib' = diskManager lib \<and> (\<exists>evs. events lib' = events lib @ evs)"
proof (cases "mapTrue g n")
  case True
  then show ?thesis using assms by (simp add: convertOne_def)
next
  case False
  show ?thesis
  proof (cases "Transform (transformer lib) img n []")
    case None
    then show ?thesis using assms False by (auto simp: convertOne_def logEvent_def)
  next
    case (Some t)
    obtain ok lib2 where w: "writeDisk (logEvent (TransformCall n None True) lib) (ConversionsDisk m)
        (GetPathForConversion (pathPrefix lib) m n) (encodeImage lib (codecFor (FileName m)) t) = (ok, lib2)"
      by (cases "writeDisk (logEvent (TransformCall n None True) lib) (ConversionsDisk m)
        (GetPathForConversion (pathPrefix lib) m n) (encodeImage lib (codecFor (FileName m)) t)")
    have "lib' = lib2"
      using assms False Some w by (auto simp: convertOne_def split: option.splits if_splits bool.splits)
    then show ?thesis
      using writeDisk_frame [OF w] by (auto simp: logEvent_def)
  qed
qed

lemma convertEach_frame:
  "convertEach lib m img ns g = (r, lib') \<Longrightarrow>
   repository lib' = repository lib \<and> transformer lib' = transformer lib \<and>
   pathPrefix lib' = pathPrefix lib \<and> encodeImage lib' = encodeImage lib \<and>
   decodeImage lib' = decodeImage lib \<and> diskManager lib' = diskManager lib \<and>
   (\<exists>evs. events lib' = events lib @ evs)"
proof (induction ns arbitrary: lib g)
  case Nil
  then show ?case by simp
next
  case (Cons n ns)
  obtain r1 lib1 where one: "convertOne lib m img n g = (r1, lib1)"
    by (cases "convertOne lib m img n g")
  note f1 = convertOne_frame [OF one]
  show ?case
  proof (cases r1)
    case Panic
    then show ?thesis using Cons.prems one f1 by simp
  next
    case (Return g1)
    then have "convertEach lib1 m img ns g1 = (r, lib')" using Cons.prems one by simp
    from Cons.IH [OF this] f1 show ?thesis by auto
  qed
qed

lemma mapAssign_grows:
  assumes "mapAssign g n v = Some kvs" and "distinctKeys g"
  shows "distinctKeys (Some kvs) \<and> mapLookup (Some kvs) = (mapLookup g)(n \<mapsto> v)"
  using assms
  by (auto simp: mapAssign_def distinctKeys_def mapLookup_def update_conv' distinct_update
      split: option.splits)

lemma mapAssign_otherKeysTrue:
  "mapAssign g n True = Some kvs \<Longrightarrow> otherKeysTrue g \<Longrightarrow> otherKeysTrue (Some kvs)"
  by (auto simp: mapAssign_def otherKeysTrue_def intro: list_all_update split: option.splits)

lemma convertOne_grows:
  assumes "convertOne lib m img n g = (Return g', lib')" and "distinctKeys g \<and> otherKeysTrue g"
  shows "(distinctKeys g' \<and> otherKeysTrue g') \<and> (mapTrue g k \<longrightarrow> mapTrue g' k)"
proof (cases "g' = g")
  case True
  then show ?thesis using assms by simp
next
  case False
  then obtain kvs where "mapAssign g n True = Some kvs" "g' = Some kvs"
    using assms(1) by (auto simp: convertOne_def split: if_splits option.splits prod.splits bool.splits)
  then show ?thesis
    using mapAssign_grows [of g n True kvs] mapAssign_otherKeysTrue [of g n kvs] assms(2)
    by (auto simp: mapTrue_def)
qed

lemma convertEach_grows:
  "convertEach lib m img ns g = (Return g', lib') \<Longrightarrow> distinctKeys g \<and> otherKeysTrue g \<Longrightarrow>
   (distinctKeys g' \<and> otherKeysTrue g') \<and> (mapTrue g k \<longrightarrow> mapTrue g' k)"
proof (induction ns arbitrary: lib g)
  case Nil
  then show ?case by simp
next
  case (Cons n ns)
  obtain r1 lib1 where one: "convertOne lib m img n g = (r1, lib1)"
    by (cases "convertOne lib m img n g")
  then obtain g1 where r1: "r1 = Return g1" and rest: "convertEach lib1 m img ns g1 = (Return g', lib')"
    using Cons.prems(1) by (cases r1) auto
  from convertOne_grows [OF one [unfolded r1] Cons.prems(2), of k] Cons.IH [OF rest]
  show ?case by blast
qed


text \<open>What a save can do.\<close>

lemma Repository_Create_row:
  "Repository_Create repo m = (m', repo') \<Longrightarrow>
   m' = m\<lparr>ID := newID repo\<rparr> \<and> map_of (rows repo') (ID m') = Some m' \<and>
   rejects repo' = rejects repo \<and> implementation repo' = implementation repo"
  by (auto simp: Repository_Create_def Let_def update_conv')

lemma saveRecord_cases:
  assumes "saveRecord lib m = (r, lib')"
  shows "(r = Panic \<and> UUID m = None \<and> implementation (repository lib) = SQLMediaRepository \<and>
          lib' = logEvent (RepositorySave False) lib) \<or>
         (r = Return None \<and> rejects (repository lib) m \<and>
          lib' = logEvent (RepositorySave False) lib) \<or>
         (\<exists>m'. r = Return (Some m') \<and> \<not> rejects (repository lib) m \<and>
            lib' = lib\<lparr>repository := repository lib',
                    events := events lib @ [RepositorySave True]\<rparr> \<and>
            (repository lib' = repository lib \<or>
             map_of (rows (repository lib')) (ID m') = Some m') \<and>
            implementation (repository lib') = implementation (repository lib) \<and>
            rejects (repository lib') = rejects (repository lib) \<and>
            (implementation (repository lib) = SQLMediaRepository \<longrightarrow> UUID m \<noteq> None) \<and>
            m' = m\<lparr>ID := (if ID m = 0 then newID (repository lib) else ID m)\<rparr>)"
proof (cases "implementation (repository lib)")
  case GormMediaRepository
  then show ?thesis
    using assms
    by (auto simp: saveRecord_def Repository_Save_def Repository_Create_def Let_def update_conv'
        logEvent_def split: if_splits)
next
  case SQLMediaRepository
  then show ?thesis
    using assms
    by (auto simp: saveRecord_def Repository_Save_def Repository_Create_def Let_def update_conv'
        logEvent_def split: if_splits)
qed

lemma saveRecord_events:
  assumes "saveRecord lib m = (r, lib')"
  shows "events lib' = events lib @ [RepositorySave (\<exists>m'. r = Return (Some m'))] \<and>
         diskManager lib' = diskManager lib \<and> storages lib' = storages lib \<and>
         pathPrefix lib' = pathPrefix lib \<and> transformer lib' = transformer lib"
proof -
  from saveRecord_cases [OF assms]
  consider "lib' = logEvent (RepositorySave False) lib" "\<nexists>m'. r = Return (Some m')"
    | "lib' = lib\<lparr>repository := repository lib', events := events lib @ [RepositorySave True]\<rparr>"
      "\<exists>m'. r = Return (Some m')"
    by auto
  then show ?thesis
  proof cases
    case 1
    then show ?thesis by (simp add: logEvent_def)
  next
    case 2
    have "events lib' = events lib @ [RepositorySave True]" "diskManager lib' = diskManager lib"
      "storages lib' = storages lib" "pathPrefix lib' = pathPrefix lib"
      "transformer lib' = transformer lib"
      by (subst 2(1), simp)+
    then show ?thesis using 2(2) by simp
  qed
qed

section \<open>The loops of GenerateResponsiveImages\<close>

lemma innerMap_valid:
  assumes "validNested g"
  shows "distinctKeys (innerMap g n) \<and> validKeys (innerMap g n)"
proof (cases g)
  case None
  then show ?thesis by (simp add: innerMap_def mapLookup_def distinctKeys_def validKeys_def)
next
  case (Some kvs)
  show ?thesis
  proof (cases "map_of kvs n")
    case None
    then show ?thesis
      using Some by (simp add: innerMap_def mapLookup_def distinctKeys_def validKeys_def)
  next
    case inner: (Some inner)
    then have "(n, inner) \<in> set kvs" by (rule map_of_SomeD)
    then have "distinctKeys inner \<and> validKeys inner"
      using assms Some by (auto simp: validNested_def distinctNested_def list_all_iff)
    then show ?thesis using inner Some by (simp add: innerMap_def mapLookup_def)
  qed
qed

lemma mapAssign_valid:
  "mapAssign g n v = Some kvs \<Longrightarrow> validKeys g \<Longrightarrow> validUTF8 n \<Longrightarrow> validKeys (Some kvs)"
  by (auto simp: mapAssign_def validKeys_def intro: list_all_update split: option.splits)

lemma outer_assign:
  assumes "mapAssign g n (Some inner) = Some kvs" and "validNested g" and "validUTF8 n"
    and "distinct (map fst inner)" and "validKeys (Some inner)"
  shows "validNested (Some kvs) \<and> innerMap (Some kvs) = (innerMap g)(n := Some inner)"
proof -
  obtain old where g: "g = Some old" and kvs: "kvs = AList.update n (Some inner) old"
    using assms(1) by (auto simp: mapAssign_def split: option.splits)
  have "distinct (map fst kvs)"
    using assms(2) g kvs by (simp add: validNested_def distinctNested_def distinct_update)
  moreover have "list_all (\<lambda>(k, i). distinctKeys i) kvs"
  proof -
    have a: "list_all (\<lambda>(k, i). distinctKeys i) old"
      using assms(2) g by (simp add: validNested_def distinctNested_def)
    have b: "(\<lambda>(k, i). distinctKeys i) (n, Some inner)"
      using assms(4) by (simp add: distinctKeys_def)
    show ?thesis unfolding kvs by (rule list_all_update [OF a b])
  qed
  moreover have "list_all (\<lambda>(k, i). validKeys i) kvs"
  proof -
    have a: "list_all (\<lambda>(k, i). validKeys i) old"
      using assms(2) g by (simp add: validNested_def)
    have b: "(\<lambda>(k, i). validKeys i) (n, Some inner)"
      using assms(5) by simp
    show ?thesis unfolding kvs by (rule list_all_update [OF a b])
  qed
  moreover have "validKeys (Some kvs)"
    using mapAssign_valid [OF assms(1) _ assms(3)] assms(2) by (simp add: validNested_def)
  moreover have "innerMap (Some kvs) = (innerMap g)(n := Some inner)"
    by (rule ext) (simp add: innerMap_def mapLookup_def g kvs update_conv')
  ultimately show ?thesis by (simp add: validNested_def distinctNested_def)
qed

lemma generateWidth_frame:
  assumes "generateWidth lib m img n w g = (r, lib')"
  shows "repository lib' = repository lib \<and> transformer lib' = transformer lib \<and>
         pathPrefix lib' = pathPrefix lib \<and> encodeImage lib' = encodeImage lib \<and>
         decodeImage lib' = decodeImage lib \<and> diskManager lib' = diskManager lib \<and>
         (\<exists>evs. events lib' = events lib @ evs)"
proof (cases "mapTrue (innerMap g n) (show_int w)")
  case True
  then show ?thesis using assms by (simp add: generateWidth_def)
next
  case False
  show ?thesis
  proof (cases "Transform (transformer lib) img n [WithWidth w]")
    case None
    then show ?thesis using assms False by (auto simp: generateWidth_def logEvent_def)
  next
    case (Some t)
    obtain ok lib2 where wr: "writeDisk (logEvent (TransformCall n (Some w) True) lib) (ConversionsDisk m)
        (GetPathForResponsiveImage (pathPrefix lib) m n w) (encodeImage lib (codecFor (FileName m)) t) = (ok, lib2)"
      by (cases "writeDisk (logEvent (TransformCall n (Some w) True) lib) (ConversionsDisk m)
        (GetPathForResponsiveImage (pathPrefix lib) m n w) (encodeImage lib (codecFor (FileName m)) t)")
    have "lib' = lib2"
      using assms False Some wr
      by (auto simp: generateWidth_def Let_def split: option.splits if_splits bool.splits)
    then show ?thesis
      using writeDisk_frame [OF wr] by (auto simp: logEvent_def)
  qed
qed

lemma generateWidth_result:
  assumes "generateWidth lib m img n w g = (Return g', lib')"
  shows "g' = g \<or>
         (\<exists>inner kvs. mapAssign (innerMap g n) (show_int w) True = Some inner \<and>
            mapAssign g n (Some inner) = Some kvs \<and> g' = Some kvs)"
  using assms
  by (auto simp: generateWidth_def Let_def split: if_splits option.splits prod.splits bool.splits)

lemma generateWidth_grows:
  assumes "generateWidth lib m img n w g = (Return g', lib')" and "validNested g"
    and "validUTF8 n"
  shows "validNested g' \<and> (mapTrue (innerMap g c) k \<longrightarrow> mapTrue (innerMap g' c) k)"
proof (cases "g' = g")
  case True
  then show ?thesis using assms by simp
next
  case False
  then obtain inner kvs where i: "mapAssign (innerMap g n) (show_int w) True = Some inner"
    and o: "mapAssign g n (Some inner) = Some kvs" and g': "g' = Some kvs"
    using generateWidth_result [OF assms(1)] by blast
  note iv = innerMap_valid [OF assms(2), of n]
  note ig = mapAssign_grows [OF i conjunct1 [OF iv]]
  have d: "distinct (map fst inner)" using ig by (simp add: distinctKeys_def)
  have v: "validKeys (Some inner)"
    by (rule mapAssign_valid [OF i conjunct2 [OF iv] validUTF8_show_int])
  note og = outer_assign [OF o assms(2) assms(3) d v]
  show ?thesis
    using ig og g' by (auto simp: mapTrue_def)
qed

lemma generateWidths_frame:
  "generateWidths lib m img n ws g = (r, lib') \<Longrightarrow>
   repository lib' = repository lib \<and> transformer lib' = transformer lib \<and>
   pathPrefix lib' = pathPrefix lib \<and> encodeImage lib' = encodeImage lib \<and>
   decodeImage lib' = decodeImage lib \<and> diskManager lib' = diskManager lib \<and>
   (\<exists>evs. events lib' = events lib @ evs)"
proof (induction ws arbitrary: lib g)
  case Nil
  then show ?case by simp
next
  case (Cons w ws)
  obtain r1 lib1 where one: "generateWidth lib m img n w g = (r1, lib1)"
    by (cases "generateWidth lib m img n w g")
  note f1 = generateWidth_frame [OF one]
  show ?case
  proof (cases r1)
    case Panic
    then show ?thesis using Cons.prems one f1 by simp
  next
    case (Return g1)
    then have "generateWidths lib1 m img n ws g1 = (r, lib')" using Cons.prems one by simp
    from Cons.IH [OF this] f1 show ?thesis by auto
  qed
qed

lemma generateWidths_grows:
  "generateWidths lib m img n ws g = (Return g', lib') \<Longrightarrow> validNested g \<Longrightarrow> validUTF8 n \<Longrightarrow>
   validNested g' \<and> (mapTrue (innerMap g c) k \<longrightarrow> mapTrue (innerMap g' c) k)"
proof (induction ws arbitrary: lib g)
  case Nil
  then show ?case by simp
next
  case (Cons w ws)
  obtain r1 lib1 where one: "generateWidth lib m img n w g = (r1, lib1)"
    by (cases "generateWidth lib m img n w g")
  then obtain g1 where r1: "r1 = Return g1"
    and rest: "generateWidths lib1 m img n ws g1 = (Return g', lib')"
    using Cons.prems(1) by (cases r1) auto
  from generateWidth_grows [OF one [unfolded r1] Cons.prems(2) Cons.prems(3), of c k]
    Cons.IH [OF rest _ Cons.prems(3)]
  show ?case by blast
qed

lemma generateOne_frame:
  assumes "generateOne lib m img n g = (r, lib')"
  shows "repository lib' = repository lib \<and> transformer lib' = transformer lib \<and>
         pathPrefix lib' = pathPrefix lib \<and> encodeImage lib' = encodeImage lib \<and>
         decodeImage lib' = decodeImage lib \<and> diskManager lib' = diskManager lib \<and>
         (\<exists>evs. events lib' = events lib @ evs)"
  using assms
  by (auto simp: generateOne_def split: option.splits if_splits dest: generateWidths_frame)

lemma generateOne_grows:
  assumes "generateOne lib m img n g = (Return g', lib')" and "validNested g"
    and "validUTF8 n \<or> responsiveConversions (transformer lib) n = None"
  shows "validNested g' \<and> (mapTrue (innerMap g c) k \<longrightarrow> mapTrue (innerMap g' c) k)"
proof (cases "responsiveConversions (transformer lib) n")
  case None
  then show ?thesis using assms by (simp add: generateOne_def)
next
  case (Some rc)
  then have vn: "validUTF8 n" using assms(3) by simp
  show ?thesis
  proof (cases "innerMap g n = None")
    case False
    then have "generateWidths lib m img n (Widths rc) g = (Return g', lib')"
      using assms(1) Some by (auto simp: generateOne_def split: if_splits)
    from generateWidths_grows [OF this assms(2) vn] show ?thesis .
  next
    case True
    then obtain kvs where o: "mapAssign g n (Some []) = Some kvs"
      and ws: "generateWidths lib m img n (Widths rc) (Some kvs) = (Return g', lib')"
      using assms(1) Some by (auto simp: generateOne_def split: option.splits)
    have og: "validNested (Some kvs) \<and> innerMap (Some kvs) = (innerMap g)(n := Some [])"
      by (rule outer_assign [OF o assms(2) vn]) (simp_all add: validKeys_def)
    then have "mapTrue (innerMap g c) k \<longrightarrow> mapTrue (innerMap (Some kvs) c) k"
      using True by (auto simp: mapTrue_def mapLookup_def)
    with generateWidths_grows [OF ws _ vn, of c k] og show ?thesis by blast
  qed
qed

lemma generateEach_frame:
  "generateEach lib m img ns g = (r, lib') \<Longrightarrow>
   repository lib' = repository lib \<and> transformer lib' = transformer lib \<and>
   pathPrefix lib' = pathPrefix lib \<and> encodeImage lib' = encodeImage lib \<and>
   decodeImage lib' = decodeImage lib \<and> diskManager lib' = diskManager lib \<and>
   (\<exists>evs. events lib' = events lib @ evs)"
proof (induction ns arbitrary: lib g)
  case Nil
  then show ?case by simp
next
  case (Cons n ns)
  obtain r1 lib1 where one: "generateOne lib m img n g = (r1, lib1)"
    by (cases "generateOne lib m img n g")
  note f1 = generateOne_frame [OF one]
  show ?case
  proof (cases r1)
    case Panic
    then show ?thesis using Cons.prems one f1 by simp
  next
    case (Return g1)
    then have "generateEach lib1 m img ns g1 = (r, lib')" using Cons.prems one by simp
    from Cons.IH [OF this] f1 show ?thesis by auto
  qed
qed

lemma generateEach_grows:
  "generateEach lib m img ns g = (Return g', lib') \<Longrightarrow> validNested g \<Longrightarrow>
   list_all (\<lambda>n. validUTF8 n \<or> responsiveConversions (transformer lib) n = None) ns \<Longrightarrow>
   validNested g' \<and> (mapTrue (innerMap g c) k \<longrightarrow> mapTrue (innerMap g' c) k)"
proof (induction ns arbitrary: lib g)
  case Nil
  then show ?case by simp
next
  case (Cons n ns)
  obtain r1 lib1 where one: "generateOne lib m img n g = (r1, lib1)"
    by (cases "generateOne lib m img n g")
  then obtain g1 where r1: "r1 = Return g1"
    and rest: "generateEach lib1 m img ns g1 = (Return g', lib')"
    using Cons.prems(1) by (cases r1) auto
  have t: "transformer lib1 = transformer lib"
    using generateOne_frame [OF one] by simp
  have "list_all (\<lambda>n. validUTF8 n \<or> responsiveConversions (transformer lib1) n = None) ns"
    using Cons.prems(3) t by simp
  from generateOne_grows [OF one [unfolded r1] Cons.prems(2), of c k] Cons.IH [OF rest _ this]
    Cons.prems(3)
  show ?case by auto
qed

section \<open>Runs of the two generation calls\<close>

lemma PerformConversions_unfold:
  "PerformConversions lib m names =
     (case originalImage lib m of
        Inl e \<Rightarrow> (Return (Some e), m, lib)
      | Inr img \<Rightarrow>
          (case convertEach lib m img names (startingIndex unmarshalBool (GeneratedConversions m)) of
             (Panic, lib') \<Rightarrow> (Panic, m, lib')
           | (Return g, lib') \<Rightarrow>
               (case saveRecord lib' (m\<lparr>GeneratedConversions := RawJSON (marshalBoolMap g)\<rparr>) of
                  (Panic, lib'') \<Rightarrow>
                    (Panic, m\<lparr>GeneratedConversions := RawJSON (marshalBoolMap g)\<rparr>, lib'')
                | (Return None, lib'') \<Rightarrow>
                    (Return (Some SaveMediaFailed),
                     m\<lparr>GeneratedConversions := RawJSON (marshalBoolMap g)\<rparr>, lib'')
                | (Return (Some saved), lib'') \<Rightarrow> (Return None, saved, lib''))))"
  by (simp add: PerformConversions_def originalImage_def Let_def
      split: option.splits prod.splits outcome.splits)

lemma GenerateResponsiveImages_unfold:
  "GenerateResponsiveImages lib m names =
     (case originalImage lib m of
        Inl e \<Rightarrow> (Return (Some e), m, lib)
      | Inr img \<Rightarrow>
          (case generateEach lib m img names
                  (startingIndex (unmarshalMap unmarshalBool) (ResponsiveImages m)) of
             (Panic, lib') \<Rightarrow> (Panic, m, lib')
           | (Return g, lib') \<Rightarrow>
               (case saveRecord lib' (m\<lparr>ResponsiveImages := RawJSON (marshalResponsive g)\<rparr>) of
                  (Panic, lib'') \<Rightarrow>
                    (Panic, m\<lparr>ResponsiveImages := RawJSON (marshalResponsive g)\<rparr>, lib'')
                | (Return None, lib'') \<Rightarrow>
                    (Return (Some SaveMediaFailed),
                     m\<lparr>ResponsiveImages := RawJSON (marshalResponsive g)\<rparr>, lib'')
                | (Return (Some saved), lib'') \<Rightarrow> (Return None, saved, lib''))))"
  by (simp add: GenerateResponsiveImages_def originalImage_def Let_def
      split: option.splits prod.splits outcome.splits)

text \<open>The shape of every run of \<open>PerformConversions\<close>.\<close>

lemma PerformConversions_run:
  assumes "PerformConversions lib m names = (r, m', lib')"
  shows "(\<exists>e. originalImage lib m = Inl e \<and> r = Return (Some e) \<and> m' = m \<and> lib' = lib) \<or>
         (\<exists>img libA. originalImage lib m = Inr img \<and>
            convertEach lib m img names (startingIndex unmarshalBool (GeneratedConversions m)) =
              (Panic, libA) \<and> r = Panic \<and> m' = m \<and> lib' = libA) \<or>
         (\<exists>img g libA saved.
            originalImage lib m = Inr img \<and>
            convertEach lib m img names (startingIndex unmarshalBool (GeneratedConversions m)) =
              (Return g, libA) \<and>
            saveRecord libA (m\<lparr>GeneratedConversions := RawJSON (marshalBoolMap g)\<rparr>) = (saved, lib') \<and>
            GeneratedConversions m' = RawJSON (marshalBoolMap g) \<and>
            (case saved of
               Panic \<Rightarrow> r = Panic \<and> m' = m\<lparr>GeneratedConversions := RawJSON (marshalBoolMap g)\<rparr>
             | Return None \<Rightarrow> r = Return (Some SaveMediaFailed) \<and>
                        m' = m\<lparr>GeneratedConversions := RawJSON (marshalBoolMap g)\<rparr>
             | Return (Some s) \<Rightarrow> r = Return None \<and> m' = s))"
proof (cases "originalImage lib m")
  case (Inl e)
  then show ?thesis using assms by (simp add: PerformConversions_unfold)
next
  case (Inr img)
  obtain rc libA where c: "convertEach lib m img names
      (startingIndex unmarshalBool (GeneratedConversions m)) = (rc, libA)"
    by (cases "convertEach lib m img names (startingIndex unmarshalBool (GeneratedConversions m))")
  show ?thesis
  proof (cases rc)
    case Panic
    then show ?thesis using assms Inr c by (simp add: PerformConversions_unfold)
  next
    case (Return g)
    obtain saved libB where s:
      "saveRecord libA (m\<lparr>GeneratedConversions := RawJSON (marshalBoolMap g)\<rparr>) = (saved, libB)"
      by (cases "saveRecord libA (m\<lparr>GeneratedConversions := RawJSON (marshalBoolMap g)\<rparr>)")
    have "GeneratedConversions m' = RawJSON (marshalBoolMap g)"
      using assms Inr c Return s saveRecord_cases [OF s]
      by (auto simp: PerformConversions_unfold)
    then show ?thesis
      using assms Inr c Return s
      by (auto simp: PerformConversions_unfold split: outcome.splits option.splits)
  qed
qed

lemma GenerateResponsiveImages_run:
  assumes "GenerateResponsiveImages lib m names = (r, m', lib')"
  shows "(\<exists>e. originalImage lib m = Inl e \<and> r = Return (Some e) \<and> m' = m \<and> lib' = lib) \<or>
         (\<exists>img libA. originalImage lib m = Inr img \<and>
            generateEach lib m img names
              (startingIndex (unmarshalMap unmarshalBool) (ResponsiveImages m)) = (Panic, libA) \<and>
            r = Panic \<and> m' = m \<and> lib' = libA) \<or>
         (\<exists>img g libA saved.
            originalImage lib m = Inr img \<and>
            generateEach lib m img names
              (startingIndex (unmarshalMap unmarshalBool) (ResponsiveImages m)) = (Return g, libA) \<and>
            saveRecord libA (m\<lparr>ResponsiveImages := RawJSON (marshalResponsive g)\<rparr>) = (saved, lib') \<and>
            ResponsiveImages m' = RawJSON (marshalResponsive g) \<and>
            (case saved of
               Panic \<Rightarrow> r = Panic \<and> m' = m\<lparr>ResponsiveImages := RawJSON (marshalResponsive g)\<rparr>
             | Return None \<Rightarrow> r = Return (Some SaveMediaFailed) \<and>
                        m' = m\<lparr>ResponsiveImages := RawJSON (marshalResponsive g)\<rparr>
             | Return (Some s) \<Rightarrow> r = Return None \<and> m' = s))"
proof (cases "originalImage lib m")
  case (Inl e)
  then show ?thesis using assms by (simp add: GenerateResponsiveImages_unfold)
next
  case (Inr img)
  obtain rc libA where c: "generateEach lib m img names
      (startingIndex (unmarshalMap unmarshalBool) (ResponsiveImages m)) = (rc, libA)"
    by (cases "generateEach lib m img names
      (startingIndex (unmarshalMap unmarshalBool) (ResponsiveImages m))")
  show ?thesis
  proof (cases rc)
    case Panic
    then show ?thesis using assms Inr c by (simp add: GenerateResponsiveImages_unfold)
  next
    case (Return g)
    obtain saved libB where s:
      "saveRecord libA (m\<lparr>ResponsiveImages := RawJSON (marshalResponsive g)\<rparr>) = (saved, libB)"
      by (cases "saveRecord libA (m\<lparr>ResponsiveImages := RawJSON (marshalResponsive g)\<rparr>)")
    have "ResponsiveImages m' = RawJSON (marshalResponsive g)"
      using assms Inr c Return s saveRecord_cases [OF s]
      by (auto simp: GenerateResponsiveImages_unfold)
    then show ?thesis
      using assms Inr c Return s
      by (auto simp: GenerateResponsiveImages_unfold split: outcome.splits option.splits)
  qed
qed

text \<open>A call changes no field of the record but its index and, on a first save, its identifier.\<close>

lemma PerformConversions_fields:
  assumes "PerformConversions lib m names = (r, m', lib')"
  shows "m' = m\<lparr>ID := ID m', GeneratedConversions := GeneratedConversions m'\<rparr>"
  using PerformConversions_run [OF assms]
proof (elim disjE exE conjE)
  fix img g libA saved
  assume s: "saveRecord libA (m\<lparr>GeneratedConversions := RawJSON (marshalBoolMap g)\<rparr>) = (saved, lib')"
    and r: "case saved of
        Panic \<Rightarrow> r = Panic \<and> m' = m\<lparr>GeneratedConversions := RawJSON (marshalBoolMap g)\<rparr>
      | Return None \<Rightarrow> r = Return (Some SaveMediaFailed) \<and>
                 m' = m\<lparr>GeneratedConversions := RawJSON (marshalBoolMap g)\<rparr>
      | Return (Some s) \<Rightarrow> r = Return None \<and> m' = s"
  show ?thesis
    using saveRecord_cases [OF s] r by (auto split: outcome.splits option.splits)
qed simp_all

lemma GenerateResponsiveImages_fields:
  assumes "GenerateResponsiveImages lib m names = (r, m', lib')"
  shows "m' = m\<lparr>ID := ID m', ResponsiveImages := ResponsiveImages m'\<rparr>"
  using GenerateResponsiveImages_run [OF assms]
proof (elim disjE exE conjE)
  fix img g libA saved
  assume s: "saveRecord libA (m\<lparr>ResponsiveImages := RawJSON (marshalResponsive g)\<rparr>) = (saved, lib')"
    and r: "case saved of
        Panic \<Rightarrow> r = Panic \<and> m' = m\<lparr>ResponsiveImages := RawJSON (marshalResponsive g)\<rparr>
      | Return None \<Rightarrow> r = Return (Some SaveMediaFailed) \<and>
                 m' = m\<lparr>ResponsiveImages := RawJSON (marshalResponsive g)\<rparr>
      | Return (Some s) \<Rightarrow> r = Return None \<and> m' = s"
  show ?thesis
    using saveRecord_cases [OF s] r by (auto split: outcome.splits option.splits)
qed simp_all

lemma indexed_start:
  assumes "conversionIndexed m n"
  shows "mapTrue (startingIndex unmarshalBool (GeneratedConversions m)) n"
  using assms
  by (auto simp: conversionIndexed_def startingIndex_def Unmarshal_def
      split: option.splits raw_message.splits)

lemma responsive_start:
  assumes "responsiveIndexed m c k"
  shows "mapTrue (innerMap (startingIndex (unmarshalMap unmarshalBool) (ResponsiveImages m)) c) k"
  using assms
  by (auto simp: responsiveIndexed_def startingIndex_def Unmarshal_def
      split: option.splits raw_message.splits)

lemma mapTrue_valid: "mapTrue g n \<Longrightarrow> validKeys g \<Longrightarrow> validUTF8 n"
  by (auto simp: mapTrue_def mapLookup_def validKeys_def list_all_iff
      split: option.splits dest: map_of_SomeD)

lemma indexed_valid: "conversionIndexed m n \<Longrightarrow> validUTF8 n"
  using indexed_start [of m n] startingIndex_valid [of unmarshalBool "GeneratedConversions m"]
  by (auto intro: mapTrue_valid)

lemma indexed_marshal:
  assumes "GeneratedConversions m = RawJSON (marshalBoolMap g)"
    and "distinctKeys g \<and> otherKeysTrue g" and "mapTrue g n" and "validUTF8 n"
  shows "conversionIndexed m n"
proof -
  obtain g' where g': "unmarshalMap unmarshalBool (marshalBoolMap g) = Some g'"
    using bools_total by blast
  from bools_keep [OF g' conjunct1 [OF assms(2)] conjunct2 [OF assms(2)] assms(3) assms(4)]
  show ?thesis
    using g' by (simp add: conversionIndexed_def Unmarshal_def assms(1))
qed

lemma responsive_marshal:
  assumes "ResponsiveImages m = RawJSON (marshalResponsive g)" and "validNested g"
  shows "responsiveIndexed m c k = mapTrue (innerMap g c) k"
  using responsive_roundtrip [OF assms(2)]
  by (auto simp: responsiveIndexed_def Unmarshal_def assms(1))

lemma PerformConversions_keeps:
  assumes "PerformConversions lib m names = (r, m', lib')" and "conversionIndexed m n"
  shows "conversionIndexed m' n"
  using PerformConversions_run [OF assms(1)]
proof (elim disjE exE conjE)
  fix img g libA saved
  assume c: "convertEach lib m img names (startingIndex unmarshalBool (GeneratedConversions m)) =
      (Return g, libA)"
    and g: "GeneratedConversions m' = RawJSON (marshalBoolMap g)"
  have "distinctKeys (startingIndex unmarshalBool (GeneratedConversions m)) \<and>
      otherKeysTrue (startingIndex unmarshalBool (GeneratedConversions m))"
    using startingIndex_distinct startingIndex_valid validKeys_otherKeysTrue by blast
  from convertEach_grows [OF c this, of n] indexed_start [OF assms(2)]
  have "distinctKeys g \<and> otherKeysTrue g" "mapTrue g n" by simp_all
  then show ?thesis by (intro indexed_marshal [OF g] indexed_valid [OF assms(2)])
qed (use assms(2) in simp_all)

lemma GenerateResponsiveImages_keeps:
  assumes "GenerateResponsiveImages lib m names = (r, m', lib')" and "responsiveIndexed m c k"
    and "list_all (\<lambda>n. validUTF8 n \<or> responsiveConversions (transformer lib) n = None) names"
  shows "responsiveIndexed m' c k"
  using GenerateResponsiveImages_run [OF assms(1)]
proof (elim disjE exE conjE)
  fix img g libA saved
  assume c: "generateEach lib m img names
      (startingIndex (unmarshalMap unmarshalBool) (ResponsiveImages m)) = (Return g, libA)"
    and g: "ResponsiveImages m' = RawJSON (marshalResponsive g)"
  from generateEach_grows [OF c startingIndex_nested assms(3), of c k] responsive_start [OF assms(2)]
  have "validNested g" "mapTrue (innerMap g c) k" by simp_all
  then show ?thesis by (simp add: responsive_marshal [OF g])
qed (use assms(2) in simp_all)

text \<open>A call either leaves the repository as it was or ends by saving the record it returns.\<close>

lemma PerformConversions_persists:
  assumes "PerformConversions lib m names = (r, m', lib')"
  shows "repository lib' = repository lib \<or>
         (r = Return None \<and> map_of (rows (repository lib')) (ID m') = Some m')"
  using PerformConversions_run [OF assms]
proof (elim disjE exE conjE)
  fix img g libA saved
  assume c: "convertEach lib m img names (startingIndex unmarshalBool (GeneratedConversions m)) =
      (Return g, libA)"
    and s: "saveRecord libA (m\<lparr>GeneratedConversions := RawJSON (marshalBoolMap g)\<rparr>) = (saved, lib')"
    and r: "case saved of
        Panic \<Rightarrow> r = Panic \<and> m' = m\<lparr>GeneratedConversions := RawJSON (marshalBoolMap g)\<rparr>
      | Return None \<Rightarrow> r = Return (Some SaveMediaFailed) \<and>
                 m' = m\<lparr>GeneratedConversions := RawJSON (marshalBoolMap g)\<rparr>
      | Return (Some s) \<Rightarrow> r = Return None \<and> m' = s"
  show ?thesis
    using saveRecord_cases [OF s] convertEach_frame [OF c] r by (auto simp: logEvent_def)
next
  fix img libA
  assume "convertEach lib m img names (startingIndex unmarshalBool (GeneratedConversions m)) =
      (Panic, libA)" "lib' = libA"
  then show ?thesis using convertEach_frame by fastforce
qed simp

lemma GenerateResponsiveImages_persists:
  assumes "GenerateResponsiveImages lib m names = (r, m', lib')"
  shows "repository lib' = repository lib \<or>
         (r = Return None \<and> map_of (rows (repository lib')) (ID m') = Some m')"
  using GenerateResponsiveImages_run [OF assms]
proof (elim disjE exE conjE)
  fix img g libA saved
  assume c: "generateEach lib m img names
      (startingIndex (unmarshalMap unmarshalBool) (ResponsiveImages m)) = (Return g, libA)"
    and s: "saveRecord libA (m\<lparr>ResponsiveImages := RawJSON (marshalResponsive g)\<rparr>) = (saved, lib')"
    and r: "case saved of
        Panic \<Rightarrow> r = Panic \<and> m' = m\<lparr>ResponsiveImages := RawJSON (marshalResponsive g)\<rparr>
      | Return None \<Rightarrow> r = Return (Some SaveMediaFailed) \<and>
                 m' = m\<lparr>ResponsiveImages := RawJSON (marshalResponsive g)\<rparr>
      | Return (Some s) \<Rightarrow> r = Return None \<and> m' = s"
  show ?thesis
    using saveRecord_cases [OF s] generateEach_frame [OF c] r by (auto simp: logEvent_def)
next
  fix img libA
  assume "generateEach lib m img names
      (startingIndex (unmarshalMap unmarshalBool) (ResponsiveImages m)) = (Panic, libA)"
    "lib' = libA"
  then show ?thesis using generateEach_frame by fastforce
qed simp

section \<open>The index only grows\<close>

lemmas sample_defs =
  sampleLibrary_def sampleMedia_def sampleDisk_def sampleTransformer_def sampleOptions_def

lemmas run_defs =
  PerformConversions_def GenerateResponsiveImages_def convertOne_def generateOne_def
  generateWidth_def writeDisk_def saveRecord_def Repository_Save_def Repository_Create_def
  newID_def GetDisk_def Storage_Save_def
  Storage_Get_def logEvent_def startingIndex_def Unmarshal_def Transform_def NewOptions_def
  WithWidth_def mapTrue_def mapLookup_def mapAssign_def innerMap_def codecFor_def
  marshalBoolMap_def marshalResponsive_def marshalMembers_def sortMembers_def
  runeWidth_def leadRanges_def validUTF8_def

lemmas path_defs =
  GetPath_def GetPathForConversion_def GetPathForResponsiveImage_def getBasePath_def
  cleanPath_def Clean_def Ext_def TrimSuffix_def show_nat.simps show_int_def

text \<open>
  Two keys of a Go map can be written as one JSON key, and of the two only the later is
  decoded. An entry under the replacement character is lost in this way when a conversion
  whose name is an invalid byte is generated.
\<close>

lemma invalid_name_replaces_entry:
  "responsiveIndexed
     ((sampleMedia 42 ''photo.jpg'')
        \<lparr>ResponsiveImages :=
           RawJSON (JObject [([CHR 0xEF, CHR 0xBF, CHR 0xBD], JObject [(''100'', JBool True)])])\<rparr>)
     [CHR 0xEF, CHR 0xBF, CHR 0xBD] ''100'' \<and>
   fst (GenerateResponsiveImages byteNameLibrary
     ((sampleMedia 42 ''photo.jpg'')
        \<lparr>ResponsiveImages :=
           RawJSON (JObject [([CHR 0xEF, CHR 0xBF, CHR 0xBD], JObject [(''100'', JBool True)])])\<rparr>)
     [[CHR 0xFF]]) = Return None \<and>
   ResponsiveImages (fst (snd (GenerateResponsiveImages byteNameLibrary
     ((sampleMedia 42 ''photo.jpg'')
        \<lparr>ResponsiveImages :=
           RawJSON (JObject [([CHR 0xEF, CHR 0xBF, CHR 0xBD], JObject [(''100'', JBool True)])])\<rparr>)
     [[CHR 0xFF]]))) =
     RawJSON (JObject [([CHR 0xEF, CHR 0xBF, CHR 0xBD], JObject [(''100'', JBool True)]),
                       ([CHR 0xEF, CHR 0xBF, CHR 0xBD], JObject [(''320'', JBool True)])]) \<and>
   \<not> responsiveIndexed
     (fst (snd (GenerateResponsiveImages byteNameLibrary
        ((sampleMedia 42 ''photo.jpg'')
           \<lparr>ResponsiveImages :=
              RawJSON (JObject [([CHR 0xEF, CHR 0xBF, CHR 0xBD], JObject [(''100'', JBool True)])])\<rparr>)
        [[CHR 0xFF]])))
     [CHR 0xEF, CHR 0xBF, CHR 0xBD] ''100''"
proof -
  let ?M = "(sampleMedia 42 ''photo.jpg'')
      \<lparr>ResponsiveImages :=
         RawJSON (JObject [([CHR 0xEF, CHR 0xBF, CHR 0xBD], JObject [(''100'', JBool True)])])\<rparr>"
  let ?G = "GenerateResponsiveImages byteNameLibrary ?M [[CHR 0xFF]]"
  have before: "responsiveIndexed ?M [CHR 0xEF, CHR 0xBF, CHR 0xBD] ''100''"
    by (simp add: responsiveIndexed_def sampleMedia_def Unmarshal_def mapTrue_def mapLookup_def
        innerMap_def runeWidth_def leadRanges_def)
  have run: "fst ?G = Return None"
    "ResponsiveImages (fst (snd ?G)) =
      RawJSON (JObject [([CHR 0xEF, CHR 0xBF, CHR 0xBD], JObject [(''100'', JBool True)]),
                        ([CHR 0xEF, CHR 0xBF, CHR 0xBD], JObject [(''320'', JBool True)])])"
    by (simp_all add: byteNameLibrary_def sample_defs run_defs path_defs Let_def)
  have after: "\<not> responsiveIndexed (fst (snd ?G)) [CHR 0xEF, CHR 0xBF, CHR 0xBD] ''100''"
    by (simp add: responsiveIndexed_def run(2) Unmarshal_def mapTrue_def mapLookup_def
        innerMap_def runeWidth_def leadRanges_def)
  show ?thesis using before run after by simp
qed

text \<open>
  Claim C6, as amended. An entry is present in an index when the index decodes, as the two
  calls decode it, to a map that holds \<open>true\<close> for it. Whatever \<open>PerformConversions\<close> returns,
  a conversion name that was present before the call is present in the record the call
  leaves, and the index of responsive images is as it was. Whatever
  \<open>GenerateResponsiveImages\<close> returns on conversion names that are valid UTF-8, a width that was
  present under a conversion name before the call is present in the record the call leaves,
  and the index of conversions is as it was. Either call leaves the repository as it was, or
  returns no error and has saved that very record.
\<close>

theorem derived_index_monotone:
  "(PerformConversions lib m names = (r, m', lib') \<longrightarrow>
      (conversionIndexed m n \<longrightarrow> conversionIndexed m' n) \<and>
      ResponsiveImages m' = ResponsiveImages m \<and>
      (repository lib' = repository lib \<or>
       (r = Return None \<and> map_of (rows (repository lib')) (ID m') = Some m'))) \<and>
   (GenerateResponsiveImages lib m names = (r2, m2, lib2) \<longrightarrow> list_all validUTF8 names \<longrightarrow>
      (responsiveIndexed m c k \<longrightarrow> responsiveIndexed m2 c k) \<and>
      GeneratedConversions m2 = GeneratedConversions m \<and>
      (repository lib2 = repository lib \<or>
       (r2 = Return None \<and> map_of (rows (repository lib2)) (ID m2) = Some m2)))"
proof (intro conjI impI)
  assume run: "PerformConversions lib m names = (r, m', lib')"
  show "conversionIndexed m' n" if "conversionIndexed m n"
    by (rule PerformConversions_keeps [OF run that])
  have "m' = m\<lparr>ID := ID m', GeneratedConversions := GeneratedConversions m'\<rparr>"
    by (rule PerformConversions_fields [OF run])
  then have "ResponsiveImages m' =
      ResponsiveImages (m\<lparr>ID := ID m', GeneratedConversions := GeneratedConversions m'\<rparr>)"
    by simp
  then show "ResponsiveImages m' = ResponsiveImages m" by simp
  show "repository lib' = repository lib \<or>
        (r = Return None \<and> map_of (rows (repository lib')) (ID m') = Some m')"
    by (rule PerformConversions_persists [OF run])
next
  assume run: "GenerateResponsiveImages lib m names = (r2, m2, lib2)"
    and names: "list_all validUTF8 names"
  have ok: "list_all (\<lambda>n. validUTF8 n \<or> responsiveConversions (transformer lib) n = None) names"
    using names by (simp add: list_all_iff)
  show "responsiveIndexed m2 c k" if "responsiveIndexed m c k"
    by (rule GenerateResponsiveImages_keeps [OF run that ok])
  have "m2 = m\<lparr>ID := ID m2, ResponsiveImages := ResponsiveImages m2\<rparr>"
    by (rule GenerateResponsiveImages_fields [OF run])
  then have "GeneratedConversions m2 =
      GeneratedConversions (m\<lparr>ID := ID m2, ResponsiveImages := ResponsiveImages m2\<rparr>)"
    by simp
  then show "GeneratedConversions m2 = GeneratedConversions m" by simp
  show "repository lib2 = repository lib \<or>
        (r2 = Return None \<and> map_of (rows (repository lib2)) (ID m2) = Some m2)"
    by (rule GenerateResponsiveImages_persists [OF run])
qed

lemma sample_indexed_runs:
  "fst (PerformConversions (sampleLibrary ''photo.jpg'') indexedMedia [''thumbnail'']) = Return None"
  "GeneratedConversions
     (fst (snd (PerformConversions (sampleLibrary ''photo.jpg'') indexedMedia [''thumbnail'']))) =
     RawJSON (JObject [(''old'', JBool True), (''thumbnail'', JBool True)])"
  "fst (GenerateResponsiveImages (sampleLibrary ''photo.jpg'') indexedMedia [''responsive'']) =
     Return None"
  "ResponsiveImages
     (fst (snd (GenerateResponsiveImages (sampleLibrary ''photo.jpg'') indexedMedia [''responsive'']))) =
     RawJSON (JObject [(''old'', JObject [(''100'', JBool True)]),
                       (''responsive'', JObject [(''320'', JBool True)])])"
  by (simp_all add: indexedMedia_def sample_defs run_defs path_defs Let_def)

theorem derived_index_monotone_witness:
  "PerformConversions (sampleLibrary ''photo.jpg'') indexedMedia [''thumbnail''] =
     (Return None,
      fst (snd (PerformConversions (sampleLibrary ''photo.jpg'') indexedMedia [''thumbnail''])),
      snd (snd (PerformConversions (sampleLibrary ''photo.jpg'') indexedMedia [''thumbnail'']))) \<and>
   conversionIndexed indexedMedia ''old'' \<and>
   conversionIndexed
     (fst (snd (PerformConversions (sampleLibrary ''photo.jpg'') indexedMedia [''thumbnail''])))
     ''old'' \<and>
   GenerateResponsiveImages (sampleLibrary ''photo.jpg'') indexedMedia [''responsive''] =
     (Return None,
      fst (snd (GenerateResponsiveImages (sampleLibrary ''photo.jpg'') indexedMedia [''responsive''])),
      snd (snd (GenerateResponsiveImages (sampleLibrary ''photo.jpg'') indexedMedia [''responsive'']))) \<and>
   list_all validUTF8 [''responsive''] \<and>
   responsiveIndexed indexedMedia ''old'' ''100'' \<and>
   responsiveIndexed
     (fst (snd (GenerateResponsiveImages (sampleLibrary ''photo.jpg'') indexedMedia [''responsive''])))
     ''old'' ''100''"
proof -
  let ?P = "PerformConversions (sampleLibrary ''photo.jpg'') indexedMedia [''thumbnail'']"
  let ?G = "GenerateResponsiveImages (sampleLibrary ''photo.jpg'') indexedMedia [''responsive'']"
  have c: "conversionIndexed indexedMedia ''old''"
    by (simp add: conversionIndexed_def indexedMedia_def sampleMedia_def Unmarshal_def mapTrue_def
        mapLookup_def runeWidth_def leadRanges_def)
  have r: "responsiveIndexed indexedMedia ''old'' ''100''"
    by (simp add: responsiveIndexed_def indexedMedia_def sampleMedia_def Unmarshal_def mapTrue_def
        mapLookup_def innerMap_def runeWidth_def leadRanges_def)
  have v: "list_all validUTF8 [''responsive'']"
    by (simp add: validUTF8_def runeWidth_def leadRanges_def)
  have pe: "?P = (Return None, fst (snd ?P), snd (snd ?P))"
    using sample_indexed_runs(1) by (metis prod.collapse)
  have ge: "?G = (Return None, fst (snd ?G), snd (snd ?G))"
    using sample_indexed_runs(3) by (metis prod.collapse)
  show ?thesis
    using derived_index_monotone [of "sampleLibrary ''photo.jpg''" indexedMedia "[''thumbnail'']"
        "Return None" "fst (snd ?P)" "snd (snd ?P)" "''old''" "Return None" "fst (snd ?G)"
        "snd (snd ?G)" "''old''" "''100''"]
      derived_index_monotone [of "sampleLibrary ''photo.jpg''" indexedMedia "[''responsive'']"
        "Return None" "fst (snd ?P)" "snd (snd ?P)" "''old''" "Return None" "fst (snd ?G)"
        "snd (snd ?G)" "''old''" "''100''"]
      pe ge c r v
    by blast
qed

text \<open>
  The claim as stated fails on an index that the call cannot decode: the call then starts
  from an empty map and the entries of the index are lost. The index of responsive images
  below is one that \<open>GetURLForResponsiveImage\<close> reads, and the width 100 it resolves before the
  call is no longer there after it; in the index of conversions below, one member is not a
  boolean, and the name \<open>old\<close> written in it is gone after the call.
\<close>

theorem derived_index_monotone_counterexample:
  "GetURLForResponsiveImage (sampleLibrary ''photo.jpg'')
     (Some ((sampleMedia 42 ''photo.jpg'')
        \<lparr>ResponsiveImages := RawJSON (JObject [(''old'', JObject [(''widths'', JArray [JInt 100])])])\<rparr>))
     ''old'' 100 = ''/files/media/42/old/responsive-images/photo-old-100.jpg'' \<and>
   GenerateResponsiveImages (sampleLibrary ''photo.jpg'')
     ((sampleMedia 42 ''photo.jpg'')
        \<lparr>ResponsiveImages := RawJSON (JObject [(''old'', JObject [(''widths'', JArray [JInt 100])])])\<rparr>)
     [''responsive''] =
     (Return None,
      (sampleMedia 42 ''photo.jpg'')
        \<lparr>ResponsiveImages := RawJSON (JObject [(''responsive'', JObject [(''320'', JBool True)])])\<rparr>,
      snd (snd (GenerateResponsiveImages (sampleLibrary ''photo.jpg'')
        ((sampleMedia 42 ''photo.jpg'')
           \<lparr>ResponsiveImages := RawJSON (JObject [(''old'', JObject [(''widths'', JArray [JInt 100])])])\<rparr>)
        [''responsive'']))) \<and>
   PerformConversions (sampleLibrary ''photo.jpg'')
     ((sampleMedia 42 ''photo.jpg'')
        \<lparr>GeneratedConversions := RawJSON (JObject [(''old'', JBool True), (''pending'', JInt 1)])\<rparr>)
     [''thumbnail''] =
     (Return None,
      (sampleMedia 42 ''photo.jpg'')
        \<lparr>GeneratedConversions := RawJSON (JObject [(''thumbnail'', JBool True)])\<rparr>,
      snd (snd (PerformConversions (sampleLibrary ''photo.jpg'')
        ((sampleMedia 42 ''photo.jpg'')
           \<lparr>GeneratedConversions := RawJSON (JObject [(''old'', JBool True), (''pending'', JInt 1)])\<rparr>)
        [''thumbnail''])))"
proof -
  let ?L = "sampleLibrary ''photo.jpg''"
  let ?M = "(sampleMedia 42 ''photo.jpg'')
      \<lparr>ResponsiveImages := RawJSON (JObject [(''old'', JObject [(''widths'', JArray [JInt 100])])])\<rparr>"
  let ?N = "(sampleMedia 42 ''photo.jpg'')
      \<lparr>GeneratedConversions := RawJSON (JObject [(''old'', JBool True), (''pending'', JInt 1)])\<rparr>"
  have u: "GetURLForResponsiveImage ?L (Some ?M) ''old'' 100 =
      ''/files/media/42/old/responsive-images/photo-old-100.jpg''"
    by (simp add: GetURLForResponsiveImage_def sample_defs path_defs Unmarshal_def GetDisk_def
        mapLookup_def Storage_URL_def runeWidth_def leadRanges_def Let_def)
  have g: "fst (GenerateResponsiveImages ?L ?M [''responsive'']) = Return None"
    "fst (snd (GenerateResponsiveImages ?L ?M [''responsive''])) =
      (sampleMedia 42 ''photo.jpg'')
        \<lparr>ResponsiveImages := RawJSON (JObject [(''responsive'', JObject [(''320'', JBool True)])])\<rparr>"
    by (simp_all add: sample_defs run_defs path_defs Let_def)
  have p: "fst (PerformConversions ?L ?N [''thumbnail'']) = Return None"
    "fst (snd (PerformConversions ?L ?N [''thumbnail''])) =
      (sampleMedia 42 ''photo.jpg'')
        \<lparr>GeneratedConversions := RawJSON (JObject [(''thumbnail'', JBool True)])\<rparr>"
    by (simp_all add: sample_defs run_defs path_defs Let_def)
  have "GenerateResponsiveImages ?L ?M [''responsive''] =
      (Return None,
       (sampleMedia 42 ''photo.jpg'')
         \<lparr>ResponsiveImages := RawJSON (JObject [(''responsive'', JObject [(''320'', JBool True)])])\<rparr>,
       snd (snd (GenerateResponsiveImages ?L ?M [''responsive''])))"
    using g by (metis prod.collapse)
  moreover have "PerformConversions ?L ?N [''thumbnail''] =
      (Return None,
       (sampleMedia 42 ''photo.jpg'')
         \<lparr>GeneratedConversions := RawJSON (JObject [(''thumbnail'', JBool True)])\<rparr>,
       snd (snd (PerformConversions ?L ?N [''thumbnail''])))"
    using p by (metis prod.collapse)
  ultimately show ?thesis using u by simp
qed

section \<open>Repeating a conversion\<close>

lemma newEvents_append: "events lib' = events lib @ evs \<Longrightarrow> newEvents lib lib' = evs"
  by (simp add: newEvents_def)

lemma PerformConversions_frame:
  assumes "PerformConversions lib m names = (r, m', lib')"
  shows "diskManager lib' = diskManager lib \<and> pathPrefix lib' = pathPrefix lib \<and>
         transformer lib' = transformer lib \<and> (\<exists>evs. events lib' = events lib @ evs)"
  using PerformConversions_run [OF assms]
proof (elim disjE exE conjE)
  fix img g libA saved
  assume c: "convertEach lib m img names (startingIndex unmarshalBool (GeneratedConversions m)) =
      (Return g, libA)"
    and s: "saveRecord libA (m\<lparr>GeneratedConversions := RawJSON (marshalBoolMap g)\<rparr>) = (saved, lib')"
  from convertEach_frame [OF c] saveRecord_events [OF s] show ?thesis by auto
next
  fix img libA
  assume "convertEach lib m img names (startingIndex unmarshalBool (GeneratedConversions m)) =
      (Panic, libA)" "lib' = libA"
  then show ?thesis using convertEach_frame by blast
qed simp

lemma GenerateResponsiveImages_frame:
  assumes "GenerateResponsiveImages lib m names = (r, m', lib')"
  shows "diskManager lib' = diskManager lib \<and> pathPrefix lib' = pathPrefix lib \<and>
         transformer lib' = transformer lib \<and> (\<exists>evs. events lib' = events lib @ evs)"
  using GenerateResponsiveImages_run [OF assms]
proof (elim disjE exE conjE)
  fix img g libA saved
  assume c: "generateEach lib m img names
      (startingIndex (unmarshalMap unmarshalBool) (ResponsiveImages m)) = (Return g, libA)"
    and s: "saveRecord libA (m\<lparr>ResponsiveImages := RawJSON (marshalResponsive g)\<rparr>) = (saved, lib')"
  from generateEach_frame [OF c] saveRecord_events [OF s] show ?thesis by auto
next
  fix img libA
  assume "generateEach lib m img names
      (startingIndex (unmarshalMap unmarshalBool) (ResponsiveImages m)) = (Panic, libA)" "lib' = libA"
  then show ?thesis using generateEach_frame by blast
qed simp

lemma not_indexed_start:
  assumes "\<not> conversionIndexed m n"
  shows "\<not> mapTrue (startingIndex unmarshalBool (GeneratedConversions m)) n"
  using assms
  by (auto simp: conversionIndexed_def startingIndex_def Unmarshal_def mapTrue_def mapLookup_def
      split: option.splits raw_message.splits)


text \<open>
  A name that is not valid UTF-8 is marked under another key than its own: the encoder
  writes the replacement character for the invalid byte, so the name is not found in what
  the next call decodes, and the next call transforms and stores it again.
\<close>

lemma invalid_name_converted_again:
  "fst (PerformConversions byteNameLibrary (sampleMedia 42 ''photo.jpg'') [[CHR 0xFF]]) = Return None \<and>
   GeneratedConversions
     (fst (snd (PerformConversions byteNameLibrary (sampleMedia 42 ''photo.jpg'') [[CHR 0xFF]]))) =
     RawJSON (JObject [([CHR 0xEF, CHR 0xBF, CHR 0xBD], JBool True)]) \<and>
   newEvents
     (snd (snd (PerformConversions byteNameLibrary (sampleMedia 42 ''photo.jpg'') [[CHR 0xFF]])))
     (snd (snd (PerformConversions
        (snd (snd (PerformConversions byteNameLibrary (sampleMedia 42 ''photo.jpg'') [[CHR 0xFF]])))
        (fst (snd (PerformConversions byteNameLibrary (sampleMedia 42 ''photo.jpg'') [[CHR 0xFF]])))
        [[CHR 0xFF]]))) =
     [TransformCall [CHR 0xFF] None True,
      StorageWrite ''local''
        (GetPathForConversion ''media'' (sampleMedia 42 ''photo.jpg'') [CHR 0xFF]) True,
      RepositorySave True]"
proof -
  let ?M = "sampleMedia 42 ''photo.jpg''"
  let ?M1 = "?M\<lparr>GeneratedConversions := RawJSON (JObject [([CHR 0xEF, CHR 0xBF, CHR 0xBD], JBool True)])\<rparr>"
  let ?path = "GetPathForConversion ''media'' ?M [CHR 0xFF]"
  let ?L1 = "byteNameLibrary
      \<lparr>storages := (storages byteNameLibrary)(0 := (storages byteNameLibrary 0)
         \<lparr>objects := (objects (storages byteNameLibrary 0))(?path \<mapsto> ''xyz'')\<rparr>),
       repository := (repository byteNameLibrary)\<lparr>rows := [(42, ?M1)]\<rparr>,
       events := [TransformCall [CHR 0xFF] None True, StorageWrite ''local'' ?path True,
         RepositorySave True]\<rparr>"
  have one: "PerformConversions byteNameLibrary ?M [[CHR 0xFF]] = (Return None, ?M1, ?L1)"
    by (simp add: byteNameLibrary_def sample_defs run_defs path_defs Let_def)
  have two: "events (snd (snd (PerformConversions ?L1 ?M1 [[CHR 0xFF]]))) =
      [TransformCall [CHR 0xFF] None True, StorageWrite ''local'' ?path True, RepositorySave True,
       TransformCall [CHR 0xFF] None True, StorageWrite ''local'' ?path True, RepositorySave True]"
    by (simp add: byteNameLibrary_def sample_defs run_defs path_defs Let_def)
  show ?thesis
    unfolding one fst_conv snd_conv newEvents_def two by simp
qed





section \<open>The errors PerformConversions returns\<close>

text \<open>
  Claim C2, as amended. When \<open>PerformConversions\<close> returns an error, either one of the four
  steps before the loop failed (the lookup of the source disk or of the conversions disk, the
  fetch of the original, its decoding) and the error is that step's, with nothing done; or
  the error is that of the final save, which the repository rejected. A map of booleans is
  always marshalled, and no transform, encoding or store failure of a name is returned.
\<close>

theorem conversion_error_causes:
  assumes "PerformConversions lib m names = (Return (Some e), m', lib')"
  shows "(originalImage lib m = Inl e \<and> m' = m \<and> lib' = lib \<and>
          e \<in> {SourceDiskNotFound, ConversionsDiskNotFound, GetFileFailed, DecodeImageFailed}) \<or>
         (e = SaveMediaFailed \<and> (\<exists>img. originalImage lib m = Inr img) \<and>
          rejects (repository lib) m' \<and> events lib' \<noteq> [] \<and>
          last (events lib') = RepositorySave False)"
  using PerformConversions_run [OF assms]
proof (elim disjE exE conjE)
  fix e'
  assume o: "originalImage lib m = Inl e'" and r: "Return (Some e) = Return (Some e')"
    and same: "m' = m" "lib' = lib"
  have "e' \<in> {SourceDiskNotFound, ConversionsDiskNotFound, GetFileFailed, DecodeImageFailed}"
    using o by (auto simp: originalImage_def split: option.splits)
  then show ?thesis using o r same by simp
next
  fix img g libA saved
  assume o: "originalImage lib m = Inr img"
    and c: "convertEach lib m img names (startingIndex unmarshalBool (GeneratedConversions m)) =
      (Return g, libA)"
    and s: "saveRecord libA (m\<lparr>GeneratedConversions := RawJSON (marshalBoolMap g)\<rparr>) = (saved, lib')"
    and r: "case saved of
        Panic \<Rightarrow> Return (Some e) = Panic \<and>
                 m' = m\<lparr>GeneratedConversions := RawJSON (marshalBoolMap g)\<rparr>
      | Return None \<Rightarrow> Return (Some e) = Return (Some SaveMediaFailed) \<and>
                 m' = m\<lparr>GeneratedConversions := RawJSON (marshalBoolMap g)\<rparr>
      | Return (Some s) \<Rightarrow> Return (Some e) = Return None \<and> m' = s"
  from r have none: "saved = Return None" and e: "e = SaveMediaFailed"
    and m': "m' = m\<lparr>GeneratedConversions := RawJSON (marshalBoolMap g)\<rparr>"
    by (auto split: outcome.splits option.splits)
  have "rejects (repository libA) m'" "lib' = logEvent (RepositorySave False) libA"
    using saveRecord_cases [OF s] none m' by auto
  then show ?thesis
    using convertEach_frame [OF c] o e by (auto simp: logEvent_def)
qed simp


theorem conversion_error_causes_witness:
  "fst (PerformConversions rejectingLibrary (sampleMedia 42 ''photo.jpg'') [''missing'', ''thumbnail'']) =
     Return (Some SaveMediaFailed) \<and>
   originalImage rejectingLibrary (sampleMedia 42 ''photo.jpg'') = Inr (Image 10 10) \<and>
   rejects (repository rejectingLibrary)
     (fst (snd (PerformConversions rejectingLibrary (sampleMedia 42 ''photo.jpg'')
        [''missing'', ''thumbnail'']))) \<and>
   last (events (snd (snd (PerformConversions rejectingLibrary (sampleMedia 42 ''photo.jpg'')
     [''missing'', ''thumbnail''])))) = RepositorySave False"
proof -
  let ?P = "PerformConversions rejectingLibrary (sampleMedia 42 ''photo.jpg'') [''missing'', ''thumbnail'']"
  have r: "fst ?P = Return (Some SaveMediaFailed)"
    by (simp add: rejectingLibrary_def sample_defs run_defs path_defs Let_def)
  have o: "originalImage rejectingLibrary (sampleMedia 42 ''photo.jpg'') = Inr (Image 10 10)"
    by (simp add: originalImage_def rejectingLibrary_def sample_defs path_defs Storage_Get_def
        GetDisk_def)
  have "?P = (Return (Some SaveMediaFailed), fst (snd ?P), snd (snd ?P))"
    using r by (metis prod.collapse)
  from conversion_error_causes [OF this] show ?thesis
    using r o by simp
qed

text \<open>
  The claim as stated fails: for a record whose disk is not registered the call returns an
  error although nothing was marshalled and the repository was never called.
\<close>

theorem conversion_error_causes_counterexample:
  "fst (PerformConversions (sampleLibrary ''photo.jpg'')
          ((sampleMedia 42 ''photo.jpg'')\<lparr>Disk := ''s3''\<rparr>) [''thumbnail'']) =
     Return (Some SourceDiskNotFound) \<and>
   events (snd (snd (PerformConversions (sampleLibrary ''photo.jpg'')
          ((sampleMedia 42 ''photo.jpg'')\<lparr>Disk := ''s3''\<rparr>) [''thumbnail'']))) = []"
  by (simp add: PerformConversions_def GetDisk_def sample_defs)

section \<open>The URL of a conversion that is not available\<close>

text \<open>
  Claim C9. \<open>GetURLForMediaConversion\<close> is a total function to strings: it has no error
  result and no step that can panic. It gives the empty string for the nil record, for a
  name that is not marked in the record's index (also when the index does not decode), and
  when the conversions disk is not registered.
\<close>

theorem unavailable_conversion_url_empty:
  "GetURLForMediaConversion lib None conversionName = '''' \<and>
   (\<not> conversionIndexed m conversionName \<longrightarrow>
      GetURLForMediaConversion lib (Some m) conversionName = '''') \<and>
   (diskManager lib (ConversionsDisk m) = None \<longrightarrow>
      GetURLForMediaConversion lib (Some m) conversionName = '''')"
  by (simp add: GetURLForMediaConversion_def conversionIndexed_def GetDisk_def split: option.splits)

theorem unavailable_conversion_url_empty_witness:
  "\<not> conversionIndexed indexedMedia ''nonexistent'' \<and>
   GetURLForMediaConversion (sampleLibrary ''photo.jpg'') (Some indexedMedia) ''nonexistent'' = '''' \<and>
   conversionIndexed (indexedMedia\<lparr>ConversionsDisk := ''s3''\<rparr>) ''old'' \<and>
   diskManager (sampleLibrary ''photo.jpg'') (ConversionsDisk (indexedMedia\<lparr>ConversionsDisk := ''s3''\<rparr>)) =
     None \<and>
   GetURLForMediaConversion (sampleLibrary ''photo.jpg'')
     (Some (indexedMedia\<lparr>ConversionsDisk := ''s3''\<rparr>)) ''old'' = '''' \<and>
   GetURLForMediaConversion (sampleLibrary ''photo.jpg'') (Some indexedMedia) ''old'' =
     ''/files/media/42/old/conversions/photo-old.jpg''"
proof -
  have a: "\<not> conversionIndexed indexedMedia ''nonexistent''"
    and b: "conversionIndexed (indexedMedia\<lparr>ConversionsDisk := ''s3''\<rparr>) ''old''"
    by (simp_all add: conversionIndexed_def indexedMedia_def sampleMedia_def Unmarshal_def
        mapTrue_def mapLookup_def runeWidth_def leadRanges_def)
  have c: "diskManager (sampleLibrary ''photo.jpg'')
      (ConversionsDisk (indexedMedia\<lparr>ConversionsDisk := ''s3''\<rparr>)) = None"
    by (simp add: sample_defs)
  have d: "GetURLForMediaConversion (sampleLibrary ''photo.jpg'') (Some indexedMedia) ''old'' =
      ''/files/media/42/old/conversions/photo-old.jpg''"
    by (simp add: GetURLForMediaConversion_def indexedMedia_def sample_defs path_defs Unmarshal_def
        mapTrue_def mapLookup_def Storage_URL_def GetDisk_def runeWidth_def leadRanges_def Let_def)
  show ?thesis
    using unavailable_conversion_url_empty [of "sampleLibrary ''photo.jpg''" "''nonexistent''" indexedMedia]
      unavailable_conversion_url_empty [of "sampleLibrary ''photo.jpg''" "''old''"
        "indexedMedia\<lparr>ConversionsDisk := ''s3''\<rparr>"] a b c d
    by simp
qed

section \<open>The aliases of the URL operations\<close>

text \<open>
  Claim C10. Each alias returns what its counterpart returns, for every library, every
  record pointer (nil included), every name and every width.
\<close>

theorem url_aliases_equal:
  "GetMediaUrl lib media = GetURLForMedia lib media \<and>
   GetMediaConversionUrl lib media conversionName =
     GetURLForMediaConversion lib media conversionName \<and>
   GetMediaResponsiveImageUrl lib media conversionName width =
     GetURLForResponsiveImage lib media conversionName width"
  by (simp add: GetMediaUrl_def GetURLForMedia_def GetMediaConversionUrl_def
      GetURLForMediaConversion_def GetMediaResponsiveImageUrl_def GetURLForResponsiveImage_def)

section \<open>Resolving a responsive image\<close>

lemma unmarshalMap_lookup:
  assumes "unmarshalMap dec j = Some g" and "mapLookup g k = Some x"
  shows "\<exists>kvs k' v. j = JObject kvs \<and> (k', v) \<in> set kvs \<and> dec v = Some x"
proof (cases j)
  case (JObject kvs)
  with assms(1) obtain r where r: "unmarshalMembers dec kvs [] = Some r" and g: "g = Some r"
    by auto
  from unmarshalMembers_lookup [OF r, of k x] assms(2) g JObject show ?thesis
    by (auto simp: mapLookup_def)
qed (use assms in \<open>auto simp: mapLookup_def\<close>)

lemma unmarshalMap_fails:
  "(k, v) \<in> set kvs \<Longrightarrow> dec v = None \<Longrightarrow> unmarshalMap dec (JObject kvs) = None"
  by (simp add: unmarshalMembers_fails)

text \<open>
  Claim C1 is what the code should do; the code does the opposite. The generator writes the
  index as \<open>{name: {width: true}}\<close> and \<open>GetURLForResponsiveImage\<close> decodes it as
  \<open>{name: {"widths": [width, ...]}}\<close>. As soon as the index, read as the generator writes it,
  holds a width for some name, decoding it in the resolver fails on the boolean, and the
  resolver returns the empty string for every name and width.
\<close>

theorem recorded_width_not_resolved:
  assumes "responsiveIndexed m c k"
  shows "GetURLForResponsiveImage lib (Some m) conversionName width = ''''"
proof -
  from assms obtain j g where raw: "ResponsiveImages m = RawJSON j"
    and g: "unmarshalMap (unmarshalMap unmarshalBool) j = Some g"
    and t: "mapTrue (innerMap g c) k"
    by (auto simp: responsiveIndexed_def Unmarshal_def split: option.splits raw_message.splits)
  from t obtain inner where i: "mapLookup g c = Some inner" and ik: "mapLookup inner k = Some True"
    by (auto simp: mapTrue_def innerMap_def mapLookup_def split: option.splits)
  from unmarshalMap_lookup [OF g i] obtain kvs c' v where j: "j = JObject kvs"
    and v: "(c', v) \<in> set kvs" and dv: "unmarshalMap unmarshalBool v = Some inner"
    by blast
  from unmarshalMap_lookup [OF dv ik] obtain ikvs k' b where iv: "v = JObject ikvs"
    and b: "(k', b) \<in> set ikvs" and db: "unmarshalBool b = Some True"
    by blast
  have "b = JBool True" using db by (cases b) auto
  then have "unmarshalIntSlice b = None" by simp
  then have "unmarshalMap unmarshalIntSlice v = None"
    unfolding iv using b by (intro unmarshalMap_fails)
  then have "unmarshalMap (unmarshalMap unmarshalIntSlice) j = None"
    unfolding j using v by (intro unmarshalMap_fails)
  then show ?thesis
    by (simp add: GetURLForResponsiveImage_def raw Unmarshal_def)
qed

lemma sample_responsive_run:
  "fst (GenerateResponsiveImages (sampleLibrary ''photo.jpg'') (sampleMedia 42 ''photo.jpg'')
     [''responsive'']) = Return None"
  "events (snd (snd (GenerateResponsiveImages (sampleLibrary ''photo.jpg'')
     (sampleMedia 42 ''photo.jpg'') [''responsive'']))) =
     [TransformCall ''responsive'' (Some 320) True,
      StorageWrite ''local'' ''media/42/responsive/responsive-images/photo-responsive-320.jpg'' True,
      RepositorySave True]"
  "ResponsiveImages (fst (snd (GenerateResponsiveImages (sampleLibrary ''photo.jpg'')
     (sampleMedia 42 ''photo.jpg'') [''responsive'']))) =
     RawJSON (JObject [(''responsive'', JObject [(''320'', JBool True)])])"
  "objectAt (snd (snd (GenerateResponsiveImages (sampleLibrary ''photo.jpg'')
     (sampleMedia 42 ''photo.jpg'') [''responsive''])))
     ''local'' ''media/42/responsive/responsive-images/photo-responsive-320.jpg'' = Some ''xyz''"
  by (simp_all add: sample_defs run_defs path_defs objectAt_def Let_def)

theorem recorded_width_not_resolved_witness:
  "fst (GenerateResponsiveImages (sampleLibrary ''photo.jpg'') (sampleMedia 42 ''photo.jpg'')
     [''responsive'']) = Return None \<and>
   StorageWrite ''local'' ''media/42/responsive/responsive-images/photo-responsive-320.jpg'' True
     \<in> set (events (snd (snd (GenerateResponsiveImages (sampleLibrary ''photo.jpg'')
          (sampleMedia 42 ''photo.jpg'') [''responsive''])))) \<and>
   responsiveIndexed
     (fst (snd (GenerateResponsiveImages (sampleLibrary ''photo.jpg'')
        (sampleMedia 42 ''photo.jpg'') [''responsive''])))
     ''responsive'' (show_int 320) \<and>
   Storage_URL (sampleDisk Map.empty)
     ''media/42/responsive/responsive-images/photo-responsive-320.jpg'' =
     ''/files/media/42/responsive/responsive-images/photo-responsive-320.jpg'' \<and>
   GetURLForResponsiveImage
     (snd (snd (GenerateResponsiveImages (sampleLibrary ''photo.jpg'')
        (sampleMedia 42 ''photo.jpg'') [''responsive''])))
     (Some (fst (snd (GenerateResponsiveImages (sampleLibrary ''photo.jpg'')
        (sampleMedia 42 ''photo.jpg'') [''responsive'']))))
     ''responsive'' 320 = ''''"
proof -
  let ?R = "GenerateResponsiveImages (sampleLibrary ''photo.jpg'') (sampleMedia 42 ''photo.jpg'')
     [''responsive'']"
  have i: "responsiveIndexed (fst (snd ?R)) ''responsive'' (show_int 320)"
    by (simp add: responsiveIndexed_def sample_responsive_run(3) Unmarshal_def mapTrue_def
        mapLookup_def innerMap_def show_int_def show_nat.simps runeWidth_def leadRanges_def)
  have u: "Storage_URL (sampleDisk Map.empty)
      ''media/42/responsive/responsive-images/photo-responsive-320.jpg'' =
      ''/files/media/42/responsive/responsive-images/photo-responsive-320.jpg''"
    by (simp add: Storage_URL_def sampleDisk_def)
  show ?thesis
    using recorded_width_not_resolved [OF i, of "snd (snd ?R)" "''responsive''" 320] i u
    by (simp add: sample_responsive_run)
qed

section \<open>A failing conversion among others\<close>

lemma unmarshalMap_nil: "unmarshalMap dec j = Some None \<longleftrightarrow> j = JNull"
proof (cases j)
  case (JObject kvs)
  then show ?thesis by (cases "unmarshalMembers dec kvs []") simp_all
qed simp_all

lemma startingIndex_nil:
  "startingIndex dec raw = None \<longleftrightarrow> raw = RawJSON JNull"
proof (cases raw)
  case (RawJSON j)
  show ?thesis
  proof (cases "unmarshalMap dec j")
    case None
    then show ?thesis
      using RawJSON unmarshalMap_nil [of dec j] by (simp add: startingIndex_def Unmarshal_def)
  next
    case (Some g)
    then show ?thesis
      using RawJSON unmarshalMap_nil [of dec j] by (simp add: startingIndex_def Unmarshal_def)
  qed
qed (simp_all add: startingIndex_def Unmarshal_def)

lemma indexed_marshal_source:
  assumes "GeneratedConversions m = RawJSON (marshalBoolMap g)" and "distinctKeys g"
    and "conversionIndexed m n"
  shows "\<exists>k. mapTrue g k \<and> toValidUTF8 k = n"
proof (cases g)
  case None
  then show ?thesis
    using assms by (simp add: conversionIndexed_def Unmarshal_def marshalBoolMap_def mapTrue_def
        mapLookup_def)
next
  case (Some kvs)
  have "\<forall>(k, x) \<in> set kvs. unmarshalBool (JBool x) \<noteq> None" by simp
  from marshalMembers_decoded [OF this]
  obtain r where u: "unmarshalMap unmarshalBool (marshalMembers JBool kvs) = Some (Some r)"
    and found: "\<And>k y. map_of r k = Some y \<Longrightarrow>
        \<exists>k' x. (k', x) \<in> set kvs \<and> toValidUTF8 k' = k \<and> unmarshalBool (JBool x) = Some y"
    by blast
  have "map_of r n = Some True"
    using assms(1,3) Some u
    by (simp add: conversionIndexed_def Unmarshal_def marshalBoolMap_def mapTrue_def mapLookup_def)
  from found [OF this] obtain k' where "(k', True) \<in> set kvs" "toValidUTF8 k' = n" by auto
  then show ?thesis
    using assms(2) Some by (auto simp: mapTrue_def mapLookup_def distinctKeys_def)
qed

text \<open>
  What happens on every index but the JSON literal \<open>null\<close>: with the original at hand, a
  transformer that fails on \<open>a\<close> and succeeds on \<open>b\<close>, an encoder and a conversions disk that
  accept the result and a repository that accepts the save of the record (which has a UUID),
  the call on the names \<open>a\<close>, \<open>b\<close> (neither marked yet, \<open>b\<close> valid UTF-8) goes on after the
  failure, returns no error, and leaves a record whose index has \<open>b\<close> and not \<open>a\<close>.
\<close>

lemma partial_failure_tolerated:
  assumes orig: "originalImage lib m = Inr img"
    and fa: "Transform (transformer lib) img a [] = None"
    and tb: "Transform (transformer lib) img b [] = Some t"
    and enc: "encodeImage lib (codecFor (FileName m)) t = Some bytes"
    and disk: "diskManager lib (ConversionsDisk m) = Some storage"
    and store: "\<not> saveFails (storages lib storage) (GetPathForConversion (pathPrefix lib) m b)"
    and accept: "\<And>x. \<not> rejects (repository lib) x"
    and uuid: "UUID m \<noteq> None"
    and na: "\<not> conversionIndexed m a" and nb: "\<not> conversionIndexed m b"
    and valid: "validUTF8 b"
    and notnull: "GeneratedConversions m \<noteq> RawJSON JNull"
    and run: "PerformConversions lib m [a, b] = (r, m', lib')"
  shows "r = Return None \<and> conversionIndexed m' b \<and> \<not> conversionIndexed m' a \<and>
         (repository lib' = repository lib \<or> map_of (rows (repository lib')) (ID m') = Some m') \<and>
         newEvents lib lib' =
           [TransformCall a None False, TransformCall b None True,
            StorageWrite (ConversionsDisk m) (GetPathForConversion (pathPrefix lib) m b) True,
            RepositorySave True]"
proof -
  let ?start = "startingIndex unmarshalBool (GeneratedConversions m)"
  let ?path = "GetPathForConversion (pathPrefix lib) m b"
  obtain kvs0 where g0: "?start = Some kvs0"
    using notnull startingIndex_nil [of unmarshalBool "GeneratedConversions m"] by (cases ?start) auto
  have d0: "distinctKeys (Some kvs0)" and v0: "validKeys (Some kvs0)"
    using startingIndex_distinct [of unmarshalBool "GeneratedConversions m"]
      startingIndex_valid [of unmarshalBool "GeneratedConversions m"] g0
    by simp_all
  have ma: "\<not> mapTrue (Some kvs0) a" and mb: "\<not> mapTrue (Some kvs0) b"
    using not_indexed_start [OF na] not_indexed_start [OF nb] g0 by simp_all
  have ab: "a \<noteq> b" using fa tb by auto
  let ?lib1 = "logEvent (TransformCall a None False) lib"
  let ?lib2 = "logEvent (StorageWrite (ConversionsDisk m) ?path True)
      ((logEvent (TransformCall b None True) ?lib1)
         \<lparr>storages := (storages lib)(storage :=
            (storages lib storage)\<lparr>objects := (objects (storages lib storage))(?path \<mapsto> bytes)\<rparr>)\<rparr>)"
  let ?g = "Some (AList.update b True kvs0)"
  have one: "convertOne lib m img a (Some kvs0) = (Return (Some kvs0), ?lib1)"
    using ma fa by (simp add: convertOne_def)
  have two: "convertOne ?lib1 m img b (Some kvs0) = (Return ?g, ?lib2)"
    using mb tb enc disk store
    by (simp add: convertOne_def writeDisk_def Storage_Save_def logEvent_def mapAssign_def)
  have "convertEach lib m img [a, b] (Some kvs0) = (Return ?g, ?lib2)"
    by (simp only: convertEach.simps one two prod.case outcome.case)
  then have loop: "convertEach lib m img [a, b] ?start = (Return ?g, ?lib2)"
    by (simp only: g0)
  let ?m1 = "m\<lparr>GeneratedConversions := RawJSON (marshalBoolMap ?g)\<rparr>"
  obtain saved libB where s: "saveRecord ?lib2 ?m1 = (saved, libB)"
    by (cases "saveRecord ?lib2 ?m1")
  have rep: "repository ?lib2 = repository lib"
    by (simp add: logEvent_def)
  from saveRecord_cases [OF s] accept uuid obtain s1 where saved: "saved = Return (Some s1)"
    and libB: "libB = ?lib2\<lparr>repository := repository libB,
        events := events ?lib2 @ [RepositorySave True]\<rparr>"
    and row: "repository libB = repository ?lib2 \<or> map_of (rows (repository libB)) (ID s1) = Some s1"
    and gc: "GeneratedConversions s1 = RawJSON (marshalBoolMap ?g)"
    by (auto simp: rep)
  have evB: "events libB = events ?lib2 @ [RepositorySave True]"
    by (subst libB) simp
  have res: "r = Return None" "m' = s1" "lib' = libB"
    using run orig loop s saved by (simp_all add: PerformConversions_unfold)
  have dg: "distinctKeys ?g \<and> otherKeysTrue ?g"
    using d0 v0 validKeys_otherKeysTrue [OF v0]
    by (auto simp: distinctKeys_def otherKeysTrue_def distinct_update intro: list_all_update)
  have "mapTrue ?g b"
    by (simp add: mapTrue_def mapLookup_def update_conv')
  then have ib: "conversionIndexed m' b"
    using res by (intro indexed_marshal [OF _ dg _ valid]) (simp_all add: gc)
  have "\<not> conversionIndexed m' a"
  proof
    assume "conversionIndexed m' a"
    from indexed_marshal_source [OF _ conjunct1 [OF dg] this] gc res
    obtain k where k: "mapTrue ?g k" "toValidUTF8 k = a" by auto
    show False
    proof (cases "k = b")
      case True
      then show ?thesis using k(2) valid ab by (simp add: validUTF8_def)
    next
      case False
      then have t: "mapTrue (Some kvs0) k"
        using k(1) by (simp add: mapTrue_def mapLookup_def update_conv')
      then have "validUTF8 k" by (rule mapTrue_valid [OF _ v0])
      then have "k = a" using k(2) by (simp add: validUTF8_def)
      then show ?thesis using t ma by simp
    qed
  qed
  moreover have "newEvents lib lib' =
      [TransformCall a None False, TransformCall b None True,
       StorageWrite (ConversionsDisk m) ?path True, RepositorySave True]"
    using evB res by (simp add: newEvents_def logEvent_def)
  ultimately show ?thesis using res row ib rep by simp
qed

text \<open>
  Claim C4 is what the code should do, and on an index that is the JSON literal \<open>null\<close> the
  code does not do it. Decoding \<open>null\<close> returns no error and leaves the map nil, so the call
  does not start from a fresh map as it does after a decoding error; the transform of \<open>a\<close>
  fails and is passed over, the transform and the store of \<open>thumbnail\<close> succeed, and marking
  the name in the nil map panics. Nothing is returned and nothing is saved.
\<close>

theorem null_index_conversion_panics:
  "fst (PerformConversions (sampleLibrary ''photo.jpg'')
          ((sampleMedia 42 ''photo.jpg'')\<lparr>GeneratedConversions := RawJSON JNull\<rparr>)
          [''a'', ''thumbnail'']) = Panic \<and>
   events (snd (snd (PerformConversions (sampleLibrary ''photo.jpg'')
          ((sampleMedia 42 ''photo.jpg'')\<lparr>GeneratedConversions := RawJSON JNull\<rparr>)
          [''a'', ''thumbnail'']))) =
     [TransformCall ''a'' None False, TransformCall ''thumbnail'' None True,
      StorageWrite ''local'' ''media/42/thumbnail/conversions/photo-thumbnail.jpg'' True]"
  by (simp add: sample_defs run_defs path_defs Let_def)

text \<open>The same call on the record as ingestion creates it, through the lemma above.\<close>

lemma partial_failure_tolerated_sample:
  "fst (PerformConversions (sampleLibrary ''photo.jpg'') (sampleMedia 42 ''photo.jpg'')
     [''a'', ''thumbnail'']) = Return None \<and>
   conversionIndexed
     (fst (snd (PerformConversions (sampleLibrary ''photo.jpg'') (sampleMedia 42 ''photo.jpg'')
        [''a'', ''thumbnail''])))
     ''thumbnail'' \<and>
   \<not> conversionIndexed
     (fst (snd (PerformConversions (sampleLibrary ''photo.jpg'') (sampleMedia 42 ''photo.jpg'')
        [''a'', ''thumbnail''])))
     ''a''"
proof -
  let ?L = "sampleLibrary ''photo.jpg''"
  let ?M = "sampleMedia 42 ''photo.jpg''"
  let ?P = "PerformConversions ?L ?M [''a'', ''thumbnail'']"
  have orig: "originalImage ?L ?M = Inr (Image 10 10)"
    by (simp add: originalImage_def sample_defs path_defs Storage_Get_def GetDisk_def)
  have fa: "Transform (transformer ?L) (Image 10 10) ''a'' [] = None"
    and tb: "Transform (transformer ?L) (Image 10 10) ''thumbnail'' [] = Some (Image 150 150)"
    by (simp_all add: Transform_def sample_defs)
  have enc: "encodeImage ?L (codecFor (FileName ?M)) (Image 150 150) = Some ''xyz''"
    by (simp add: sample_defs)
  have disk: "diskManager ?L (ConversionsDisk ?M) = Some 0"
    by (simp add: sampleLibrary_def sampleMedia_def)
  have store: "\<not> saveFails (storages ?L 0) (GetPathForConversion (pathPrefix ?L) ?M ''thumbnail'')"
    by (simp add: sampleLibrary_def sampleDisk_def)
  have uuid: "UUID ?M \<noteq> None"
    by (simp add: sampleMedia_def)
  have valid: "validUTF8 ''thumbnail''"
    by (simp add: validUTF8_def runeWidth_def leadRanges_def)
  have accept: "\<not> rejects (repository ?L) x" for x
    by (simp add: sampleLibrary_def)
  have na: "\<not> conversionIndexed ?M ''a''" and nb: "\<not> conversionIndexed ?M ''thumbnail''"
    by (simp_all add: conversionIndexed_def sampleMedia_def Unmarshal_def mapTrue_def mapLookup_def)
  have notnull: "GeneratedConversions ?M \<noteq> RawJSON JNull"
    by (simp add: sampleMedia_def)
  have run: "?P = (fst ?P, fst (snd ?P), snd (snd ?P))"
    by simp
  from partial_failure_tolerated [OF orig fa tb enc disk store accept uuid na nb valid notnull run]
  show ?thesis by simp
qed

section \<open>Ingestion saves the record first\<close>

lemma PerformConversions_events:
  assumes "PerformConversions lib m names = (r, m', lib')"
  shows "\<exists>evs. events lib' = events lib @ evs"
  using PerformConversions_frame [OF assms] by blast

lemma GenerateResponsiveImages_events:
  assumes "GenerateResponsiveImages lib m names = (r, m', lib')"
  shows "\<exists>evs. events lib' = events lib @ evs"
  using GenerateResponsiveImages_frame [OF assms] by blast

lemma generateDerived_events:
  assumes "generateDerived lib m opts flag = (r, lib')"
  shows "\<exists>evs. events lib' = events lib @ evs"
proof -
  let ?first = "if optAutoGenerateConversions opts \<and> optPerformConversions opts \<noteq> []
      then PerformConversions lib m (optPerformConversions opts) else (Return None, m, lib)"
  obtain r1 m1 lib1 where f: "?first = (r1, m1, lib1)"
    by (cases ?first)
  have e1: "\<exists>evs. events lib1 = events lib @ evs"
    using f PerformConversions_events by (auto split: if_splits)
  show ?thesis
  proof (cases r1)
    case Panic
    then show ?thesis using assms f e1 by (simp add: generateDerived_def)
  next
    case (Return err1)
    let ?second = "if (optAutoGenerateConversions opts \<or> \<not> flag) \<and>
        optGenerateResponsiveImages opts \<noteq> []
        then GenerateResponsiveImages lib1 m1 (optGenerateResponsiveImages opts)
        else (Return None, m1, lib1)"
    obtain r2 m2 lib2 where s: "?second = (r2, m2, lib2)"
      by (cases ?second)
    have e2: "\<exists>evs. events lib2 = events lib1 @ evs"
      using s GenerateResponsiveImages_events by (auto split: if_splits)
    have "lib' = lib2"
      using assms f Return s by (cases r2) (simp_all add: generateDerived_def)
    then show ?thesis using e1 e2 by auto
  qed
qed

text \<open>The record an ingestion builds has a UUID, so its first save returns.\<close>

lemma built_uuid:
  "setCustomProperties opts (newMedia opts uuid collection baseName diskName fileSize mimeType) =
     Some media0 \<Longrightarrow> UUID media0 = Some uuid"
  by (auto simp: setCustomProperties_def newMedia_def split: if_splits option.splits)

lemma first_save:
  assumes "saveRecord lib m = (saved, lib')" and "UUID m = Some uuid"
  shows "(saved = Return None \<and> events lib' = events lib @ [RepositorySave False]) \<or>
         (\<exists>m1. saved = Return (Some m1) \<and> events lib' = events lib @ [RepositorySave True])"
  using saveRecord_cases [OF assms(1)] saveRecord_events [OF assms(1)] assms(2) by auto

lemma writeDisk_events:
  "writeDisk lib d p c = (ok, lib') \<Longrightarrow> \<exists>evs. events lib' = events lib @ evs"
  using writeDisk_frame by blast

lemma shape_early: "events lib' = events lib \<Longrightarrow> ingestionShape lib (Return (Inl e), lib')"
  by (simp add: ingestionShape_def newEvents_def)

lemma shape_rejected:
  "events lib' = events lib @ [RepositorySave False] \<Longrightarrow> ingestionShape lib (Return (Inl e), lib')"
  by (simp add: ingestionShape_def newEvents_def)

lemma shape_saved:
  "events lib' = (events lib @ [RepositorySave True]) @ evs \<Longrightarrow> ingestionShape lib (r, lib')"
  by (simp add: ingestionShape_def newEvents_def)

lemma shape_saved_then:
  "events lib' = events lib @ RepositorySave True # evs \<Longrightarrow> ingestionShape lib (r, lib')"
  by (simp add: ingestionShape_def newEvents_def)

lemma AddMediaFromDisk_shape: "ingestionShape lib (AddMediaFromDisk lib filePath collection opts)"
proof (cases "localFiles lib filePath")
  case None
  then show ?thesis by (simp add: AddMediaFromDisk_def shape_early)
next
  case (Some fileContent)
  let ?lib0 = "lib\<lparr>uuidsDrawn := Suc (uuidsDrawn lib)\<rparr>"
  have e0: "events ?lib0 = events lib" by simp
  show ?thesis
  proof (cases "uuidSource lib (uuidsDrawn lib)")
    case None
    then show ?thesis using Some by (simp add: AddMediaFromDisk_def drawUUID_def shape_early)
  next
    case u: (Some uuid)
    let ?options = "callOptions ?lib0 (optDefaultDisk (defaultOptions ?lib0)) opts"
    let ?media = "setCustomProperties ?options
        (newMedia ?options uuid collection (Base filePath) (optDefaultDisk ?options)
           (int (length fileContent)) (mimeOf ?lib0 fileContent (Base filePath)))"
    show ?thesis
    proof (cases "GetDisk ?lib0 (optDefaultDisk ?options) = None \<or> ?media = None")
      case True
      then show ?thesis
        using Some u e0
        by (auto simp: AddMediaFromDisk_def drawUUID_def Let_def shape_early split: option.splits)
    next
      case False
      then obtain disk media0 where d: "GetDisk ?lib0 (optDefaultDisk ?options) = Some disk"
        and m0: "?media = Some media0"
        by auto
      obtain saved lib1 where s: "saveRecord ?lib0 media0 = (saved, lib1)"
        by (cases "saveRecord ?lib0 media0")
      from first_save [OF s built_uuid [OF m0]] show ?thesis
      proof (elim disjE exE conjE)
        assume "saved = Return None" "events lib1 = events ?lib0 @ [RepositorySave False]"
        then show ?thesis
          using Some u d m0 s
          by (simp add: AddMediaFromDisk_def drawUUID_def Let_def shape_rejected)
      next
        fix media1
        assume sv: "saved = Return (Some media1)"
          and e1': "events lib1 = events ?lib0 @ [RepositorySave True]"
        have e1: "events lib1 = events lib @ [RepositorySave True]"
          using e1' by simp
        obtain ok lib2 where w: "writeDisk lib1 (optDefaultDisk ?options)
            (GetPath (pathPrefix lib1) media1) (Some fileContent) = (ok, lib2)"
          by (cases "writeDisk lib1 (optDefaultDisk ?options)
            (GetPath (pathPrefix lib1) media1) (Some fileContent)")
        from writeDisk_events [OF w] obtain evs2 where e2: "events lib2 = events lib1 @ evs2"
          by blast
        obtain r3 lib3 where g: "generateDerived lib2 media1 ?options True = (r3, lib3)"
          by (cases "generateDerived lib2 media1 ?options True")
        from generateDerived_events [OF g] obtain evs3 where e3: "events lib3 = events lib2 @ evs3"
          by blast
        have res: "AddMediaFromDisk lib filePath collection opts =
            (if ok then (r3, lib3) else (Return (Inl StoreFileFailed), lib2))"
          using Some u d m0 s sv w g
          by (simp add: AddMediaFromDisk_def drawUUID_def Let_def)
        show ?thesis
          unfolding res using e1 e2 e3 by (auto intro: shape_saved)
      qed
    qed
  qed
qed

lemma AddMediaFromDiskToDisk_shape:
  "ingestionShape lib (AddMediaFromDiskToDisk lib sourceDisk sourcePath targetDisk collection opts)"
proof -
  let ?R = "AddMediaFromDiskToDisk lib sourceDisk sourcePath targetDisk collection opts"
  let ?lib0 = "lib\<lparr>uuidsDrawn := Suc (uuidsDrawn lib)\<rparr>"
  have e0: "events ?lib0 = events lib" by simp
  let ?options = "callOptions ?lib0 targetDisk opts"
  let ?built = "\<lambda>fileContent uuid. setCustomProperties ?options
           (newMedia ?options uuid collection (Base sourcePath) targetDisk
              (int (length fileContent)) (mimeOf ?lib0 fileContent (Base sourcePath)))"
  have start: "(\<exists>e. ?R = (Return (Inl e), lib)) \<or> (\<exists>e. ?R = (Return (Inl e), ?lib0)) \<or>
      (\<exists>src fileContent uuid tgt media0. GetDisk lib sourceDisk = Some src \<and>
         Storage_Exists src sourcePath = Some True \<and>
         Storage_Get src sourcePath = Some fileContent \<and>
         uuidSource lib (uuidsDrawn lib) = Some uuid \<and>
         GetDisk ?lib0 targetDisk = Some tgt \<and>
         ?built fileContent uuid = Some media0)"
  proof (cases "GetDisk lib sourceDisk")
    case None
    then show ?thesis by (simp add: AddMediaFromDiskToDisk_def)
  next
    case sd: (Some src)
    show ?thesis
    proof (cases "Storage_Exists src sourcePath = Some True")
      case False
      then show ?thesis
        using sd by (auto simp: AddMediaFromDiskToDisk_def split: option.splits bool.splits)
    next
      case ex: True
      show ?thesis
      proof (cases "Storage_Get src sourcePath")
        case None
        then show ?thesis using sd ex by (simp add: AddMediaFromDiskToDisk_def)
      next
        case fc: (Some fileContent)
        show ?thesis
        proof (cases "uuidSource lib (uuidsDrawn lib)")
          case None
          then show ?thesis
            using sd ex fc by (simp add: AddMediaFromDiskToDisk_def drawUUID_def)
        next
          case u: (Some uuid)
          show ?thesis
          proof (cases "GetDisk ?lib0 targetDisk")
            case None
            then show ?thesis
              using sd ex fc u by (simp add: AddMediaFromDiskToDisk_def drawUUID_def Let_def)
          next
            case td: (Some tgt)
            show ?thesis
            proof (cases "?built fileContent uuid")
              case None
              then show ?thesis
                using sd ex fc u td by (simp add: AddMediaFromDiskToDisk_def drawUUID_def Let_def)
            next
              case (Some media0)
              then show ?thesis using sd ex fc u td by blast
            qed
          qed
        qed
      qed
    qed
  qed
  then consider (early) e where "?R = (Return (Inl e), lib)"
    | (drawn) e where "?R = (Return (Inl e), ?lib0)"
    | (built) src fileContent uuid tgt media0
      where "GetDisk lib sourceDisk = Some src" "Storage_Exists src sourcePath = Some True"
        "Storage_Get src sourcePath = Some fileContent"
        "uuidSource lib (uuidsDrawn lib) = Some uuid"
        "GetDisk ?lib0 targetDisk = Some tgt"
        "setCustomProperties ?options
           (newMedia ?options uuid collection (Base sourcePath) targetDisk
              (int (length fileContent)) (mimeOf ?lib0 fileContent (Base sourcePath))) = Some media0"
    by blast
  then show ?thesis
  proof cases
    case early
    then show ?thesis by (simp add: shape_early)
  next
    case drawn
    then show ?thesis using e0 by (simp add: shape_early)
  next
    case built
    obtain saved lib1 where s: "saveRecord ?lib0 media0 = (saved, lib1)"
      by (cases "saveRecord ?lib0 media0")
    from first_save [OF s built_uuid [OF built(6)]] show ?thesis
    proof (elim disjE exE conjE)
      assume "saved = Return None" "events lib1 = events ?lib0 @ [RepositorySave False]"
      then show ?thesis
        using built s
        by (simp add: AddMediaFromDiskToDisk_def drawUUID_def Let_def shape_rejected)
    next
      fix media1
      assume sv: "saved = Return (Some media1)"
        and e1': "events lib1 = events ?lib0 @ [RepositorySave True]"
      have e1: "events lib1 = events lib @ [RepositorySave True]"
        using e1' by simp
      obtain ok lib2 where w: "writeDisk lib1 targetDisk
          (GetPath (pathPrefix lib1) media1) (Some fileContent) = (ok, lib2)"
        by (cases "writeDisk lib1 targetDisk (GetPath (pathPrefix lib1) media1) (Some fileContent)")
      from writeDisk_events [OF w] obtain evs2 where e2: "events lib2 = events lib1 @ evs2"
        by blast
      obtain r3 lib3 where g: "generateDerived lib2 media1 ?options True = (r3, lib3)"
        by (cases "generateDerived lib2 media1 ?options True")
      from generateDerived_events [OF g] obtain evs3 where e3: "events lib3 = events lib2 @ evs3"
        by blast
      have res: "?R = (if ok then (r3, lib3) else (Return (Inl StoreFileFailed), lib2))"
        using built s sv w g
        by (simp add: AddMediaFromDiskToDisk_def drawUUID_def Let_def)
      show ?thesis
        unfolding res using e1 e2 e3 by (auto intro: shape_saved)
    qed
  qed
qed

lemma AddMediaFromURL_shape:
  "ingestionShape lib (AddMediaFromURL lib urlStr collection opts)"
proof -
  let ?R = "AddMediaFromURL lib urlStr collection opts"
  let ?lib0 = "lib\<lparr>uuidsDrawn := Suc (uuidsDrawn lib)\<rparr>"
  have e0: "events ?lib0 = events lib" by simp
  let ?options = "callOptions ?lib0 (optDefaultDisk (defaultOptions ?lib0)) opts"
  let ?built = "\<lambda>urlPath uuid. setCustomProperties ?options
           (newMedia ?options uuid collection (Base urlPath) (optDefaultDisk ?options) 0
              (getMimeTypeFromExtension (Ext (Base urlPath))))"
  have start: "(\<exists>e. ?R = (Return (Inl e), lib)) \<or> (\<exists>e. ?R = (Return (Inl e), ?lib0)) \<or>
      (\<exists>urlPath uuid disk media0. parseURL lib urlStr = Some urlPath \<and>
         uuidSource lib (uuidsDrawn lib) = Some uuid \<and>
         GetDisk ?lib0 (optDefaultDisk ?options) = Some disk \<and>
         ?built urlPath uuid = Some media0)"
  proof (cases "parseURL lib urlStr")
    case None
    then show ?thesis by (simp add: AddMediaFromURL_def)
  next
    case p: (Some urlPath)
    show ?thesis
    proof (cases "uuidSource lib (uuidsDrawn lib)")
      case None
      then show ?thesis using p by (simp add: AddMediaFromURL_def drawUUID_def)
    next
      case u: (Some uuid)
      show ?thesis
      proof (cases "GetDisk ?lib0 (optDefaultDisk ?options)")
        case None
        then show ?thesis using p u by (simp add: AddMediaFromURL_def drawUUID_def Let_def)
      next
        case d: (Some disk)
        show ?thesis
        proof (cases "?built urlPath uuid")
          case None
          then show ?thesis using p u d by (simp add: AddMediaFromURL_def drawUUID_def Let_def)
        next
          case (Some media0)
          then show ?thesis using p u d by blast
        qed
      qed
    qed
  qed
  then consider (early) e where "?R = (Return (Inl e), lib)"
    | (drawn) e where "?R = (Return (Inl e), ?lib0)"
    | (built) urlPath uuid disk media0
      where "parseURL lib urlStr = Some urlPath"
        "uuidSource lib (uuidsDrawn lib) = Some uuid"
        "GetDisk ?lib0 (optDefaultDisk ?options) = Some disk"
        "setCustomProperties ?options
           (newMedia ?options uuid collection (Base urlPath) (optDefaultDisk ?options) 0
              (getMimeTypeFromExtension (Ext (Base urlPath)))) = Some media0"
    by blast
  then show ?thesis
  proof cases
    case early
    then show ?thesis by (simp add: shape_early)
  next
    case drawn
    then show ?thesis using e0 by (simp add: shape_early)
  next
    case built
    obtain saved lib1 where s: "saveRecord ?lib0 media0 = (saved, lib1)"
      by (cases "saveRecord ?lib0 media0")
    from first_save [OF s built_uuid [OF built(4)]] show ?thesis
    proof (elim disjE exE conjE)
      assume "saved = Return None" "events lib1 = events ?lib0 @ [RepositorySave False]"
      then show ?thesis
        using built s
        by (simp add: AddMediaFromURL_def drawUUID_def Let_def shape_rejected)
    next
      fix media1
      assume sv: "saved = Return (Some media1)"
        and e1': "events lib1 = events ?lib0 @ [RepositorySave True]"
      have e1: "events lib1 = events lib @ [RepositorySave True]"
        using e1' by simp
      let ?path = "GetPath (pathPrefix lib1) media1"
      obtain ok lib2 where w: "writeDisk lib1 (optDefaultDisk ?options) ?path
          (remoteFiles lib1 urlStr) = (ok, lib2)"
        by (cases "writeDisk lib1 (optDefaultDisk ?options) ?path (remoteFiles lib1 urlStr)")
      from writeDisk_events [OF w] obtain evs2 where e2: "events lib2 = events lib1 @ evs2"
        by blast
      have base: "?R = (case writeDisk lib1 (optDefaultDisk ?options) ?path (remoteFiles lib1 urlStr) of
            (False, lib2) \<Rightarrow> (Return (Inl StoreFileFailed), lib2)
          | (True, lib2) \<Rightarrow>
              (case GetDisk lib2 (optDefaultDisk ?options) of
                 None \<Rightarrow> (Return (Inl DiskNotFound), lib2)
               | Some stored \<Rightarrow>
                   if Storage_Exists stored ?path \<noteq> Some True
                   then (Return (Inl VerifyExistenceFailed), lib2)
                   else
                     (case Storage_Get stored ?path of
                        None \<Rightarrow> (Return (Inl GetFileFailed), lib2)
                      | Some fileBytes \<Rightarrow>
                          (case saveRecord lib2
                                  (media1\<lparr>Size := int (length fileBytes),
                                     MimeType := mimeOf lib2 fileBytes (FileName media1)\<rparr>) of
                             (Panic, lib3) \<Rightarrow> (Panic, lib3)
                           | (Return None, lib3) \<Rightarrow> (Return (Inl UpdateMediaFailed), lib3)
                           | (Return (Some media2), lib3) \<Rightarrow>
                               generateDerived lib3 media2 ?options False))))"
        using built s sv by (simp add: AddMediaFromURL_def drawUUID_def Let_def)
      have mid: "(\<exists>e. ?R = (Return (Inl e), lib2)) \<or>
          (\<exists>stored fileBytes. ok \<and> GetDisk lib2 (optDefaultDisk ?options) = Some stored \<and>
             Storage_Exists stored ?path = Some True \<and> Storage_Get stored ?path = Some fileBytes)"
      proof (cases ok)
        case False
        then show ?thesis using base w by simp
      next
        case True
        show ?thesis
        proof (cases "GetDisk lib2 (optDefaultDisk ?options)")
          case None
          then show ?thesis using base w True by simp
        next
          case d2: (Some stored)
          show ?thesis
          proof (cases "Storage_Exists stored ?path = Some True")
            case False
            then show ?thesis using base w True d2 by simp
          next
            case ex: True
            show ?thesis
            proof (cases "Storage_Get stored ?path")
              case None
              then show ?thesis using base w True d2 ex by simp
            next
              case (Some fileBytes)
              then show ?thesis using True d2 ex by blast
            qed
          qed
        qed
      qed
      then consider (stop) e where "?R = (Return (Inl e), lib2)"
        | (updated) stored fileBytes
          where "ok" "GetDisk lib2 (optDefaultDisk ?options) = Some stored"
            "Storage_Exists stored ?path = Some True" "Storage_Get stored ?path = Some fileBytes"
        by blast
      then show ?thesis
      proof cases
        case stop
        then show ?thesis using e1 e2 by (auto intro: shape_saved)
      next
        case updated
        let ?media = "media1\<lparr>Size := int (length fileBytes),
            MimeType := mimeOf lib2 fileBytes (FileName media1)\<rparr>"
        obtain saved2 lib3 where s2: "saveRecord lib2 ?media = (saved2, lib3)"
          by (cases "saveRecord lib2 ?media")
        have e3: "\<exists>evs. events lib3 = events lib2 @ evs"
          using saveRecord_events [OF s2] by blast
        show ?thesis
        proof (cases "\<exists>media2. saved2 = Return (Some media2)")
          case False
          then have "\<exists>r. ?R = (r, lib3)"
            using base w updated s2 by (auto split: outcome.splits option.splits)
          then show ?thesis using e1 e2 e3 by (auto intro: shape_saved_then)
        next
          case True
          then obtain media2 where Some: "saved2 = Return (Some media2)" by blast
          obtain r4 lib4 where g: "generateDerived lib3 media2 ?options False = (r4, lib4)"
            by (cases "generateDerived lib3 media2 ?options False")
          from generateDerived_events [OF g] obtain evs4 where e4: "events lib4 = events lib3 @ evs4"
            by blast
          have "?R = (r4, lib4)"
            using base w updated s2 Some g by simp
          then show ?thesis using e1 e2 e3 e4 by (auto intro: shape_saved)
        qed
      qed
    qed
  qed
qed

lemma shape_consequences:
  assumes "ingestionShape lib res"
  shows "writesFollowSave (newEvents lib (snd res)) \<and>
         (RepositorySave True \<notin> set (newEvents lib (snd res)) \<longrightarrow>
            (\<exists>e. fst res = Return (Inl e)) \<and> filter isWrite (newEvents lib (snd res)) = [])"
  using assms by (auto simp: ingestionShape_def)

text \<open>
  Claim C5. In each of the three ingestion operations no disk is written before the
  repository has saved the new record successfully; and when no save succeeds, the
  operation returns an error and has written to no disk.
\<close>

theorem ingestion_saves_before_writing:
  "writesFollowSave (newEvents lib (snd (AddMediaFromURL lib urlStr collection opts))) \<and>
   (RepositorySave True \<notin> set (newEvents lib (snd (AddMediaFromURL lib urlStr collection opts))) \<longrightarrow>
      (\<exists>e. fst (AddMediaFromURL lib urlStr collection opts) = Return (Inl e)) \<and>
      filter isWrite (newEvents lib (snd (AddMediaFromURL lib urlStr collection opts))) = []) \<and>
   writesFollowSave (newEvents lib (snd (AddMediaFromDisk lib filePath collection opts))) \<and>
   (RepositorySave True \<notin> set (newEvents lib (snd (AddMediaFromDisk lib filePath collection opts))) \<longrightarrow>
      (\<exists>e. fst (AddMediaFromDisk lib filePath collection opts) = Return (Inl e)) \<and>
      filter isWrite (newEvents lib (snd (AddMediaFromDisk lib filePath collection opts))) = []) \<and>
   writesFollowSave
     (newEvents lib (snd (AddMediaFromDiskToDisk lib sourceDisk sourcePath targetDisk collection opts))) \<and>
   (RepositorySave True \<notin> set (newEvents lib
        (snd (AddMediaFromDiskToDisk lib sourceDisk sourcePath targetDisk collection opts))) \<longrightarrow>
      (\<exists>e. fst (AddMediaFromDiskToDisk lib sourceDisk sourcePath targetDisk collection opts) =
         Return (Inl e)) \<and>
      filter isWrite (newEvents lib
        (snd (AddMediaFromDiskToDisk lib sourceDisk sourcePath targetDisk collection opts))) = [])"
  using shape_consequences [OF AddMediaFromURL_shape [of lib urlStr collection opts]]
    shape_consequences [OF AddMediaFromDisk_shape [of lib filePath collection opts]]
    shape_consequences [OF AddMediaFromDiskToDisk_shape
      [of lib sourceDisk sourcePath targetDisk collection opts]]
  by (intro conjI) (elim conjE, assumption)+

lemmas ingest_defs =
  AddMediaFromURL_def AddMediaFromDisk_def AddMediaFromDiskToDisk_def drawUUID_def
  callOptions_def Base_def newMedia_def displayName_def setCustomProperties_def
  getMimeTypeFromExtension_def lowerASCII_def mimeOf_def Storage_Exists_def

lemma rejected_ingestions:
  "fst (AddMediaFromURL rejectingLibrary ''http://example.com/photo.jpg'' ''gallery'' []) =
     Return (Inl SaveMediaFailed)"
  "newEvents rejectingLibrary
     (snd (AddMediaFromURL rejectingLibrary ''http://example.com/photo.jpg'' ''gallery'' [])) =
     [RepositorySave False]"
  "fst (AddMediaFromDisk rejectingLibrary ''/tmp/photo.jpg'' ''gallery'' []) =
     Return (Inl SaveMediaFailed)"
  "newEvents rejectingLibrary
     (snd (AddMediaFromDisk rejectingLibrary ''/tmp/photo.jpg'' ''gallery'' [])) =
     [RepositorySave False]"
  "fst (AddMediaFromDiskToDisk rejectingLibrary ''local'' ''media/42/photo.jpg'' ''archive''
     ''gallery'' []) = Return (Inl SaveMediaFailed)"
  "newEvents rejectingLibrary
     (snd (AddMediaFromDiskToDisk rejectingLibrary ''local'' ''media/42/photo.jpg'' ''archive''
        ''gallery'' [])) = [RepositorySave False]"
  by (simp_all add: rejectingLibrary_def sample_defs ingest_defs run_defs path_defs newEvents_def
      Let_def)

theorem ingestion_saves_before_writing_witness:
  "RepositorySave True \<notin> set (newEvents rejectingLibrary
     (snd (AddMediaFromURL rejectingLibrary ''http://example.com/photo.jpg'' ''gallery'' []))) \<and>
   fst (AddMediaFromURL rejectingLibrary ''http://example.com/photo.jpg'' ''gallery'' []) =
     Return (Inl SaveMediaFailed) \<and>
   filter isWrite (newEvents rejectingLibrary
     (snd (AddMediaFromURL rejectingLibrary ''http://example.com/photo.jpg'' ''gallery'' []))) = [] \<and>
   RepositorySave True \<notin> set (newEvents rejectingLibrary
     (snd (AddMediaFromDisk rejectingLibrary ''/tmp/photo.jpg'' ''gallery'' []))) \<and>
   fst (AddMediaFromDisk rejectingLibrary ''/tmp/photo.jpg'' ''gallery'' []) =
     Return (Inl SaveMediaFailed) \<and>
   filter isWrite (newEvents rejectingLibrary
     (snd (AddMediaFromDisk rejectingLibrary ''/tmp/photo.jpg'' ''gallery'' []))) = [] \<and>
   RepositorySave True \<notin> set (newEvents rejectingLibrary
     (snd (AddMediaFromDiskToDisk rejectingLibrary ''local'' ''media/42/photo.jpg'' ''archive''
        ''gallery'' []))) \<and>
   fst (AddMediaFromDiskToDisk rejectingLibrary ''local'' ''media/42/photo.jpg'' ''archive''
     ''gallery'' []) = Return (Inl SaveMediaFailed) \<and>
   filter isWrite (newEvents rejectingLibrary
     (snd (AddMediaFromDiskToDisk rejectingLibrary ''local'' ''media/42/photo.jpg'' ''archive''
        ''gallery'' []))) = []"
  using ingestion_saves_before_writing [of rejectingLibrary "''http://example.com/photo.jpg''"
      "''gallery''" "[]" "''/tmp/photo.jpg''" "''local''" "''media/42/photo.jpg''" "''archive''"]
  by (simp add: rejected_ingestions)

text \<open>With a repository that accepts the save, the write follows it.\<close>

lemma accepted_ingestion:
  "newEvents (sampleLibrary ''photo.jpg'')
     (snd (AddMediaFromDisk (sampleLibrary ''photo.jpg'') ''/tmp/photo.jpg'' ''gallery'' [])) =
     [RepositorySave True, StorageWrite ''local'' ''media/43/photo.jpg'' True]"
  by (simp add: sample_defs ingest_defs run_defs path_defs newEvents_def generateDerived_def Let_def)

section \<open>Moving a record to a disk\<close>










text \<open>
  The extension is compared in the lower case of \<open>strings.ToLower\<close>, which is not only that
  of ASCII; and a move between two names of one \<open>Storage\<close> writes the copy to the very store
  it then deletes the original from.
\<close>

lemma extension_types:
  "getMimeTypeFromExtension ''.JPG'' = ''image/jpeg'' \<and>
   getMimeTypeFromExtension [CHR ''.'', CHR ''G'', CHR 0xC4, CHR 0xB0, CHR ''F''] = ''image/gif'' \<and>
   getMimeTypeFromExtension ''.txt'' = ''application/octet-stream''"
  by (simp add: getMimeTypeFromExtension_def lowerASCII_def)

lemma move_within_one_storage:
  "fst (MoveMediaToDisk (aliasedLibrary ''photo.jpg'') (sampleMedia 42 ''photo.jpg'') ''mirror'') =
     Return (Inr ((sampleMedia 43 ''photo.jpg'')
       \<lparr>UUID := Some ''u-2'', MimeType := ''image/png'', Disk := ''mirror''\<rparr>)) \<and>
   objectAt (snd (MoveMediaToDisk (aliasedLibrary ''photo.jpg'') (sampleMedia 42 ''photo.jpg'')
       ''mirror''))
     ''mirror'' ''media/43/photo.jpg'' = Some ''abc'' \<and>
   objectAt (snd (MoveMediaToDisk (aliasedLibrary ''photo.jpg'') (sampleMedia 42 ''photo.jpg'')
       ''mirror''))
     ''local'' ''media/43/photo.jpg'' = Some ''abc'' \<and>
   objectAt (snd (MoveMediaToDisk (aliasedLibrary ''photo.jpg'') (sampleMedia 42 ''photo.jpg'')
       ''mirror''))
     ''mirror'' ''media/42/photo.jpg'' = None"
  by (simp add: aliasedLibrary_def MoveMediaToDisk_def drawUUID_def mimeOf_def Storage_Exists_def
      Storage_Delete_def deleteFromDisk_def objectAt_def sample_defs run_defs path_defs Let_def)






end
